theory Spec2Isabelle
  imports
    Complex_Main
    "HOL-Library.AList"
    "HOL-Library.Sublist"
    "HOL-Library.List_Lexorder"
    "HOL-Library.Char_ord"
begin

section \<open>MeshCore Panel coordinator: data model\<close>

text \<open>
  The development embeds \<^verbatim>\<open>custom_components/meshcore_panel/__init__.py\<close>.
  A Python \<^verbatim>\<open>dict\<close> is an insertion-ordered table with unique keys: it is an association
  list, read with \<open>map_of\<close> and written with \<open>AList.update\<close> (replace in place, or append
  at the end). Timestamps and coordinates are Python floats. They are reals in the model,
  and the arithmetic of the exports is exact; the retention pass, whose boundary a claim is
  about, subtracts as a double does (\<open>fsub\<close>). Strings are byte lists; \<^verbatim>\<open>str.lower\<close> is modelled
  on ASCII letters, which is what the hexadecimal identities consist of.
\<close>

type_synonym ('k, 'v) dict = "('k \<times> 'v) list"

definition lower_char :: "char \<Rightarrow> char" where
  "lower_char ch =
     (let n = (of_char ch :: nat) in if 65 \<le> n \<and> n \<le> 90 then char_of (n + 32) else ch)"

definition lower :: "string \<Rightarrow> string" where
  "lower s = map lower_char s"

text \<open>
  One half-edge of the link store: the dict \<^verbatim>\<open>{"last_seen": ..., "count": ...}\<close>. Both keys
  are read with \<^verbatim>\<open>.get\<close> and a default, so either may be missing (a store loaded from a
  JSON snapshot).
\<close>

record link_data =
  last_seen :: "real option"
  count :: "int option"

type_synonym link_store = "(string, (string, link_data) dict) dict"

text \<open>JSON values passed as service data.\<close>

datatype json = JInt int | JStr string

text \<open>An outbound \<^verbatim>\<open>hass.services.call(domain, service, data)\<close>.\<close>

datatype service_call = Service_call (domain: string) (service: string) (data: "(string \<times> json) list")

datatype log_entry = Info string | Error string

text \<open>
  The fields of \<^verbatim>\<open>MeshCorePanelCoordinator\<close> that the handlers read and write, together
  with the two effects they have on the host: \<open>calls\<close> lists every outbound service call
  attempted so far, in order, and \<open>logged\<close> what went to \<^verbatim>\<open>_LOGGER\<close>.
\<close>

record coordinator =
  my_name :: string
  greet_enabled :: bool
  direct_links :: link_store
  last_message_times :: "(string, real) dict"
  greeted_pubkeys :: "string set"
  calls :: "service_call list"
  logged :: "log_entry list"

section \<open>Link store\<close>

text \<open>\<^verbatim>\<open>link_data.get("last_seen", 0)\<close> and \<^verbatim>\<open>link_data.get("count", d)\<close>.\<close>

definition get_last_seen :: "link_data \<Rightarrow> real" where
  "get_last_seen ld = (case last_seen ld of None \<Rightarrow> 0 | Some t \<Rightarrow> t)"

definition get_count :: "link_data \<Rightarrow> int \<Rightarrow> int" where
  "get_count ld d = (case count ld of None \<Rightarrow> d | Some n \<Rightarrow> n)"

text \<open>\<^verbatim>\<open>direct_links[a][b]\<close>, when both keys are present.\<close>

definition link :: "link_store \<Rightarrow> string \<Rightarrow> string \<Rightarrow> link_data option" where
  "link s a b = (case map_of s a of None \<Rightarrow> None | Some conns \<Rightarrow> map_of conns b)"

definition record_direct_link :: "coordinator \<Rightarrow> string \<Rightarrow> string \<Rightarrow> real \<Rightarrow> coordinator" where
  "record_direct_link c node_a node_b timestamp =
     (let links = (if map_of (direct_links c) node_a = None
                   then AList.update node_a [] (direct_links c)
                   else direct_links c);
          conns = (case map_of links node_a of None \<Rightarrow> [] | Some cs \<Rightarrow> cs);
          conns' = (case map_of conns node_b of
                      Some ld \<Rightarrow>
                        AList.update node_b
                          (ld\<lparr>last_seen := Some timestamp, count := Some (get_count ld 0 + 1)\<rparr>)
                          conns
                    | None \<Rightarrow>
                        AList.update node_b \<lparr>last_seen = Some timestamp, count = Some 1\<rparr> conns)
      in c\<lparr>direct_links := AList.update node_a conns' links\<rparr>)"

text \<open>
  The loop \<^verbatim>\<open>for i in range(len(path_nodes) - 1)\<close> of \<^verbatim>\<open>_process_rx_log_data\<close>: one
  step for each pair of neighbours.
\<close>

fun record_path :: "coordinator \<Rightarrow> string list \<Rightarrow> real \<Rightarrow> coordinator" where
  "record_path c (x # y # rest) now_ts =
     (let node_a = lower x;
          node_b = lower y;
          c1 = record_direct_link c node_a node_b now_ts;
          c2 = record_direct_link c1 node_b node_a now_ts
      in record_path c2 (y # rest) now_ts)"
| "record_path c path_nodes now_ts = c"

text \<open>
  The payload is \<^verbatim>\<open>payload.get("parsed", {}).get("path_nodes", [])\<close>: \<open>None\<close> when either
  key is missing. \<open>now_ts\<close> is the value \<^verbatim>\<open>time.time()\<close> returns in this call.
\<close>

definition process_rx_log_data :: "real \<Rightarrow> coordinator \<Rightarrow> string list option \<Rightarrow> coordinator" where
  "process_rx_log_data now_ts c payload =
     (let path_nodes = (case payload of None \<Rightarrow> [] | Some ns \<Rightarrow> ns)
      in if length path_nodes < 2 then c else record_path c path_nodes now_ts)"

subsection \<open>Double arithmetic\<close>

text \<open>
  A Python float is an IEEE 754 binary64 number, and \<^verbatim>\<open>a - b\<close> on two of them is the exact
  difference rounded to the nearest double, ties to the even significand. A double has 53
  significant bits: around \<open>x\<close> the doubles are the multiples of \<open>double_quantum x\<close>, which
  is \<open>2\<close> to the power of the exponent of \<open>x\<close> (at least \<open>-1022\<close>, where the subnormal
  numbers start) minus 52. Results beyond the largest double are infinite in Python and
  finite here; both are above every age limit, so the comparisons agree.
\<close>

definition round_half_even :: "real \<Rightarrow> int" where
  "round_half_even y =
     (let n = \<lfloor>y\<rfloor>
      in if y - of_int n < 1 / 2 then n
         else if 1 / 2 < y - of_int n then n + 1
         else if even n then n else n + 1)"

definition double_exponent :: "real \<Rightarrow> int" where
  "double_exponent x = max \<lfloor>log 2 \<bar>x\<bar>\<rfloor> (- 1022)"

definition double_quantum :: "real \<Rightarrow> real" where
  "double_quantum x = 2 powr of_int (double_exponent x - 52)"

definition double_round :: "real \<Rightarrow> real" where
  "double_round x =
     (if x = 0 then 0 else of_int (round_half_even (x / double_quantum x)) * double_quantum x)"

text \<open>The reals that are doubles, and the subtraction of two of them.\<close>

definition is_double :: "real \<Rightarrow> bool" where
  "is_double x = (double_round x = x)"

definition fsub :: "real \<Rightarrow> real \<Rightarrow> real" where
  "fsub a b = double_round (a - b)"

subsection \<open>Retention\<close>

text \<open>
  The seven-day retention pass at the head of \<^verbatim>\<open>_save_persisted_data\<close>. The age
  \<^verbatim>\<open>now_ts - link_data.get("last_seen", 0)\<close> is a difference of doubles; \<open>max_age\<close> is an
  integer, with which a float is compared exactly.
\<close>

definition max_age :: real where
  "max_age = 7 * 24 * 3600"

definition clean_connections :: "real \<Rightarrow> (string, link_data) dict \<Rightarrow> (string, link_data) dict" where
  "clean_connections now_ts connections =
     filter (\<lambda>(node_b, ld). fsub now_ts (get_last_seen ld) \<le> max_age) connections"

fun clean_links :: "real \<Rightarrow> link_store \<Rightarrow> link_store" where
  "clean_links now_ts [] = []"
| "clean_links now_ts ((node_a, connections) # rest) =
     (let cleaned_connections = clean_connections now_ts connections
      in if cleaned_connections \<noteq> []
         then (node_a, cleaned_connections) # clean_links now_ts rest
         else clean_links now_ts rest)"

text \<open>
  \<^verbatim>\<open>_save_persisted_data\<close> on the in-memory state. Writing the three JSON files changes
  nothing in the coordinator (a failed write is caught and logged); the files are not
  modelled.
\<close>

definition save_persisted_data :: "real \<Rightarrow> coordinator \<Rightarrow> coordinator" where
  "save_persisted_data now_ts c =
     c\<lparr>direct_links := clean_links now_ts (direct_links c),
       last_message_times := filter (\<lambda>(k, v). fsub now_ts v \<le> max_age) (last_message_times c)\<rparr>"

subsection \<open>The symmetry invariant\<close>

text \<open>
  Two half-edges agree when they carry the same \<open>count\<close> and the same \<open>last_seen\<close>.
  A store is symmetric when every half-edge \<open>a \<rightarrow> b\<close> it holds has a half-edge \<open>b \<rightarrow> a\<close>
  that agrees with it. The check runs over the keys of the store.
\<close>

definition agrees :: "link_data \<Rightarrow> link_data option \<Rightarrow> bool" where
  "agrees ld other =
     (case other of None \<Rightarrow> False
      | Some ld' \<Rightarrow> count ld' = count ld \<and> last_seen ld' = last_seen ld)"

definition symmetric :: "link_store \<Rightarrow> bool" where
  "symmetric s =
     (\<forall>a \<in> set (map fst s). \<forall>b \<in> set (map fst (case map_of s a of None \<Rightarrow> [] | Some cs \<Rightarrow> cs)).
        (case link s a b of None \<Rightarrow> True | Some ld \<Rightarrow> agrees ld (link s b a)))"

text \<open>Keys of a Python dict are unique, at both levels of the store.\<close>

definition wf_store :: "link_store \<Rightarrow> bool" where
  "wf_store s = (distinct (map fst s) \<and> (\<forall>(a, conns) \<in> set s. distinct (map fst conns)))"

section \<open>Greeting engine\<close>

text \<open>
  The host's command sink. Given the calls attempted so far and the call being made, it
  either returns (\<open>None\<close>) or raises an \<^verbatim>\<open>Exception\<close> with the given text.
\<close>

type_synonym sink = "service_call list \<Rightarrow> service_call \<Rightarrow> string option"

definition reliable :: sink where
  "reliable = (\<lambda>history sc. None)"

definition services_call :: "sink \<Rightarrow> coordinator \<Rightarrow> service_call \<Rightarrow> coordinator \<times> string option" where
  "services_call snk c sc = (c\<lparr>calls := calls c @ [sc]\<rparr>, snk (calls c) sc)"

text \<open>The bytes between \<^verbatim>\<open>!\<close> and \<^verbatim>\<open>from\<close> in the welcome template, as the file has them.\<close>

definition wave :: string where
  "wave = map char_of [195, 176, 197, 184, 226, 128, 152, 226, 128, 185 :: nat]"

definition new_contact_title :: string where
  "new_contact_title =
     map char_of [195, 176, 197, 184, 226, 128, 160, 226, 128, 162 :: nat] @ '' New MeshCore Contact''"

definition welcome_message :: "coordinator \<Rightarrow> string \<Rightarrow> string" where
  "welcome_message c name = ''Welcome to the mesh '' @ name @ ''! '' @ wave @ '' from '' @ my_name c"

text \<open>The \<^verbatim>\<open>except Exception as e\<close> branch of \<^verbatim>\<open>_send_greeting\<close>.\<close>

definition greeting_failed :: "coordinator \<Rightarrow> string \<Rightarrow> string \<Rightarrow> coordinator" where
  "greeting_failed c pubkey e =
     c\<lparr>logged := logged c @ [Error (''Error sending greeting: '' @ e)],
       greeted_pubkeys := greeted_pubkeys c - {pubkey}\<rparr>"

text \<open>The two commands \<^verbatim>\<open>_send_greeting\<close> issues, in this order.\<close>

definition channel_message_call :: "coordinator \<Rightarrow> string \<Rightarrow> service_call" where
  "channel_message_call c name =
     Service_call ''meshcore'' ''send_channel_message''
       [(''channel'', JInt 0), (''text'', JStr (welcome_message c name))]"

definition notification_call :: "string \<Rightarrow> string \<Rightarrow> service_call" where
  "notification_call name pubkey =
     Service_call ''persistent_notification'' ''create''
       [(''title'', JStr new_contact_title),
        (''message'', JStr (''**'' @ name @ ''**'' @ [CHR 0x0A] @ ''Pubkey: '' @ pubkey
            @ [CHR 0x0A, CHR 0x0A] @ ''Greeted on Public channel''))]"

definition send_greeting :: "sink \<Rightarrow> coordinator \<Rightarrow> string \<Rightarrow> string \<Rightarrow> coordinator" where
  "send_greeting snk c name pubkey =
     (let c0 = c\<lparr>greeted_pubkeys := insert pubkey (greeted_pubkeys c)\<rparr>;
          (c1, r1) = services_call snk c0 (channel_message_call c name)
      in case r1 of
           Some e \<Rightarrow> greeting_failed c1 pubkey e
         | None \<Rightarrow>
             (let (c2, r2) = services_call snk c1 (notification_call name pubkey)
              in case r2 of
                   Some e \<Rightarrow> greeting_failed c2 pubkey e
                 | None \<Rightarrow>
                     c2\<lparr>logged := logged c2 @
                          [Info (''Greeted new contact: '' @ name @ '' ('' @ pubkey @ '')'')]\<rparr>))"

text \<open>
  The payload of a raw event: every key is read with \<^verbatim>\<open>.get\<close>, so every field may be
  missing. \<open>parsed_path_nodes\<close> is \<^verbatim>\<open>payload["parsed"]["path_nodes"]\<close>.
\<close>

record payload =
  parsed_path_nodes :: "string list option"
  public_key :: "string option"
  p_adv_name :: "string option"
  p_type :: "int option"

definition process_new_contact :: "sink \<Rightarrow> coordinator \<Rightarrow> payload \<Rightarrow> coordinator" where
  "process_new_contact snk c p =
     (if \<not> greet_enabled c then c
      else
        let pubkey = take 12 (case public_key p of None \<Rightarrow> [] | Some k \<Rightarrow> k);
            name = (case p_adv_name p of None \<Rightarrow> ''Unknown'' | Some n \<Rightarrow> n);
            node_type = (case p_type p of None \<Rightarrow> 0 | Some t \<Rightarrow> t)
        in if node_type = 2 then c
           else if pubkey = [] \<or> pubkey \<in> greeted_pubkeys c then c
           else send_greeting snk c name pubkey)"

record event =
  event_type :: string
  event_payload :: payload

text \<open>\<^verbatim>\<open>_handle_meshcore_event\<close>; \<open>now_ts\<close> is the clock reading during the call.\<close>

definition handle_meshcore_event :: "sink \<Rightarrow> coordinator \<Rightarrow> real \<times> event \<Rightarrow> coordinator" where
  "handle_meshcore_event snk c ev =
     (case ev of (now_ts, e) \<Rightarrow>
        if event_type e = ''EventType.RX_LOG_DATA''
        then process_rx_log_data now_ts c (parsed_path_nodes (event_payload e))
        else if event_type e = ''EventType.NEW_CONTACT''
        then process_new_contact snk c (event_payload e)
        else c)"

text \<open>The coordinator after a sequence of events, each with its clock reading.\<close>

definition handle_events :: "sink \<Rightarrow> coordinator \<Rightarrow> (real \<times> event) list \<Rightarrow> coordinator" where
  "handle_events snk c evs = foldl (handle_meshcore_event snk) c evs"

text \<open>The number of send-channel-message commands issued so far.\<close>

definition is_send_channel_message :: "service_call \<Rightarrow> bool" where
  "is_send_channel_message sc = (domain sc = ''meshcore'' \<and> service sc = ''send_channel_message'')"

definition greetings_sent :: "coordinator \<Rightarrow> nat" where
  "greetings_sent c = length (filter is_send_channel_message (calls c))"

section \<open>Node resolver\<close>

text \<open>
  A state of the host's state machine: its entity id and the attributes the coordinator
  reads. An attribute that is missing (or null) is \<open>None\<close>; coordinates and timestamps
  are numbers.
\<close>

record attrs =
  pubkey_prefix :: "string option"
  adv_lat :: "real option"
  latitude :: "real option"
  adv_lon :: "real option"
  longitude :: "real option"
  adv_name :: "string option"
  node_type_str :: "string option"
  last_advert :: "real option"
  last_message_time :: "real option"
  path_nodes :: "string list option"

record state =
  entity_id :: string
  attributes :: attrs

text \<open>The dict \<^verbatim>\<open>_get_node_info\<close> returns; \<open>m_last_advert\<close> is its key \<^verbatim>\<open>"last_advert"\<close>.\<close>

record node_info =
  name :: string
  lat :: real
  lon :: real
  pubkey :: string
  node_type :: string
  m_last_advert :: real

text \<open>
  \<^verbatim>\<open>entity_id.startswith("binary_sensor.meshcore_") and "_contact" in entity_id\<close>.
\<close>

definition is_contact_entity :: "state \<Rightarrow> bool" where
  "is_contact_entity st =
     (prefix ''binary_sensor.meshcore_'' (entity_id st) \<and> sublist ''_contact'' (entity_id st))"

text \<open>Truth value of an optional number, and Python's \<^verbatim>\<open>x or y\<close> on two of them.\<close>

definition truthy :: "real option \<Rightarrow> bool" where
  "truthy x = (case x of None \<Rightarrow> False | Some r \<Rightarrow> r \<noteq> 0)"

definition py_or :: "real option \<Rightarrow> real option \<Rightarrow> real option" where
  "py_or x y = (if truthy x then x else y)"

definition get_lat :: "attrs \<Rightarrow> real option" where
  "get_lat a = py_or (adv_lat a) (latitude a)"

definition get_lon :: "attrs \<Rightarrow> real option" where
  "get_lon a = py_or (adv_lon a) (longitude a)"

definition get_str :: "string option \<Rightarrow> string \<Rightarrow> string" where
  "get_str x d = (case x of None \<Rightarrow> d | Some s \<Rightarrow> s)"

text \<open>One turn of the scan in \<^verbatim>\<open>_get_node_info\<close>: the match this state appends, if any.\<close>

definition match_of :: "string \<Rightarrow> state \<Rightarrow> node_info option" where
  "match_of pubkey_prefix_arg st =
     (if \<not> is_contact_entity st then None
      else
        let a = attributes st;
            pk = lower (get_str (pubkey_prefix a) [])
        in if pk \<noteq> [] \<and> prefix (lower pubkey_prefix_arg) pk
           then (case (get_lat a, get_lon a) of
                   (Some la, Some lo) \<Rightarrow>
                     if la \<noteq> 0 \<and> lo \<noteq> 0
                     then Some \<lparr>name = get_str (adv_name a) ''Unknown'',
                                lat = la, lon = lo, pubkey = pk,
                                node_type = lower (get_str (node_type_str a) ''Unknown''),
                                m_last_advert = (case last_advert a of None \<Rightarrow> 0 | Some t \<Rightarrow> t)\<rparr>
                     else None
                 | _ \<Rightarrow> None)
           else None)"

text \<open>
  \<^verbatim>\<open>xs.sort(key=f, reverse=True)\<close> and \<^verbatim>\<open>sorted(xs, key=f, reverse=True)\<close>: descending and
  stable, that is, elements with equal keys keep their order (the list is reversed, sorted
  stably in ascending order and reversed again).
\<close>

definition py_sort_desc :: "('a \<Rightarrow> 'k::linorder) \<Rightarrow> 'a list \<Rightarrow> 'a list" where
  "py_sort_desc f xs = rev (sort_key f (rev xs))"

definition is_repeater :: "node_info \<Rightarrow> bool" where
  "is_repeater m = sublist ''repeater'' (node_type m)"

definition get_node_info :: "state list \<Rightarrow> string \<Rightarrow> node_info option" where
  "get_node_info states pubkey_prefix_arg =
     (let matches = List.map_filter (match_of pubkey_prefix_arg) states
      in case matches of
           [] \<Rightarrow> None
         | [m] \<Rightarrow> Some m
         | _ \<Rightarrow>
           (let repeaters = filter is_repeater matches
            in if repeaters \<noteq> []
               then (case py_sort_desc m_last_advert repeaters of [] \<Rightarrow> None | r # _ \<Rightarrow> Some r)
               else (case py_sort_desc m_last_advert matches of [] \<Rightarrow> None | r # _ \<Rightarrow> Some r)))"

section \<open>Export engine\<close>

text \<open>
  Each export writes \<^verbatim>\<open>{"threshold_hours": ..., "nodes": ..., "updated": ...}\<close>; the
  direct-links file has \<^verbatim>\<open>"links"\<close> as well. The functions return what is dumped.
  \<open>threshold_hours\<close> is the value \<^verbatim>\<open>_get_threshold_hours\<close> returned (a setting of the host,
  or the default), \<open>states\<close> is \<^verbatim>\<open>hass.states.async_all()\<close>.
\<close>

record 'n export =
  threshold_hours :: real
  nodes :: "'n list"
  updated :: real

record nodemap_node =
  nm_name :: string
  nm_lat :: real
  nm_lon :: real
  nm_node_type :: string
  age_hours :: real

definition nodemap_entry :: "real \<Rightarrow> real \<Rightarrow> state \<Rightarrow> nodemap_node option" where
  "nodemap_entry now_ts threshold_sec st =
     (if \<not> is_contact_entity st then None
      else
        let a = attributes st in
        case last_advert a of
          None \<Rightarrow> None
        | Some adv \<Rightarrow>
            if adv = 0 \<or> now_ts - adv > threshold_sec then None
            else (case (get_lat a, get_lon a) of
                    (Some la, Some lo) \<Rightarrow>
                      if la \<noteq> 0 \<and> lo \<noteq> 0
                      then Some \<lparr>nm_name = get_str (adv_name a) ''Unknown'',
                                 nm_lat = la, nm_lon = lo,
                                 nm_node_type = lower (get_str (node_type_str a) ''Unknown''),
                                 age_hours = (now_ts - adv) / 3600\<rparr>
                      else None
                  | _ \<Rightarrow> None))"

definition export_nodemap_data :: "real \<Rightarrow> real \<Rightarrow> state list \<Rightarrow> nodemap_node export" where
  "export_nodemap_data now_ts th_hours states =
     \<lparr>threshold_hours = th_hours,
      nodes = List.map_filter (nodemap_entry now_ts (th_hours * 3600)) states,
      updated = now_ts\<rparr>"

record heatmap_node =
  hm_name :: string
  hm_lat :: real
  hm_lon :: real
  use_count :: int

text \<open>The body of \<^verbatim>\<open>for node_prefix in path_nodes\<close> in \<^verbatim>\<open>_export_heatmap_data\<close>.\<close>

definition heatmap_count :: "state list \<Rightarrow> string \<Rightarrow> (string, heatmap_node) dict \<Rightarrow> (string, heatmap_node) dict" where
  "heatmap_count states node_prefix node_data =
     (case get_node_info states node_prefix of
        None \<Rightarrow> node_data
      | Some info \<Rightarrow>
          (let key = pubkey info;
               entry = (case map_of node_data key of
                          None \<Rightarrow> \<lparr>hm_name = name info, hm_lat = lat info, hm_lon = lon info,
                                    use_count = 0\<rparr>
                        | Some e \<Rightarrow> e)
           in AList.update key (entry\<lparr>use_count := use_count entry + 1\<rparr>) node_data))"

definition heatmap_state :: "real \<Rightarrow> real \<Rightarrow> state list \<Rightarrow> state \<Rightarrow> (string, heatmap_node) dict \<Rightarrow> (string, heatmap_node) dict" where
  "heatmap_state now_ts threshold_sec states st node_data =
     (if \<not> sublist ''meshcore_hops_'' (entity_id st) then node_data
      else
        case last_message_time (attributes st) of
          None \<Rightarrow> node_data
        | Some last_msg \<Rightarrow>
            if last_msg = 0 \<or> now_ts - last_msg > threshold_sec then node_data
            else fold (heatmap_count states)
                   (case path_nodes (attributes st) of None \<Rightarrow> [] | Some ns \<Rightarrow> ns) node_data)"

definition export_heatmap_data :: "real \<Rightarrow> real \<Rightarrow> state list \<Rightarrow> heatmap_node export" where
  "export_heatmap_data now_ts th_hours states =
     (let node_data = fold (heatmap_state now_ts (th_hours * 3600) states) states []
      in \<lparr>threshold_hours = th_hours,
          nodes = py_sort_desc use_count (map snd node_data),
          updated = now_ts\<rparr>)"

record directlinks_node =
  dl_name :: string
  dl_lat :: real
  dl_lon :: real
  dl_node_type :: string
  link_count :: int

text \<open>An entry of the exported \<^verbatim>\<open>"links"\<close> list; \<open>l_count\<close> is its key \<^verbatim>\<open>"count"\<close>.\<close>

record link_entry =
  from_pubkey :: string
  from_name :: string
  from_lat :: real
  from_lon :: real
  to_pubkey :: string
  to_name :: string
  to_lat :: real
  to_lon :: real
  l_count :: int

record directlinks_export = "directlinks_node export" +
  links :: "link_entry list"

text \<open>\<^verbatim>\<open>tuple(sorted([a, b]))\<close> on two strings.\<close>

definition link_key :: "string \<Rightarrow> string \<Rightarrow> string \<times> string" where
  "link_key a b = (if b < a then (b, a) else (a, b))"

definition entry_key :: "link_entry \<Rightarrow> string \<times> string" where
  "entry_key l = link_key (from_pubkey l) (to_pubkey l)"

text \<open>
  The search \<^verbatim>\<open>for link in link_data\<close>: the first entry with the key, if there is one, gets
  the larger count, and the flag \<^verbatim>\<open>existing\<close> is returned with the list.
\<close>

fun merge_existing :: "string \<times> string \<Rightarrow> int \<Rightarrow> link_entry list \<Rightarrow> bool \<times> link_entry list" where
  "merge_existing k n [] = (False, [])"
| "merge_existing k n (l # ls) =
     (if entry_key l = k then (True, l\<lparr>l_count := max (l_count l) n\<rparr> # ls)
      else (case merge_existing k n ls of (existing, ls') \<Rightarrow> (existing, l # ls')))"

text \<open>The body of the inner loop \<^verbatim>\<open>for node_b_prefix, link_info in connections.items()\<close>.\<close>

definition export_half_edge ::
  "real \<Rightarrow> real \<Rightarrow> state list \<Rightarrow> node_info \<Rightarrow> string \<times> link_data \<Rightarrow>
   (string, directlinks_node) dict \<times> link_entry list \<Rightarrow>
   (string, directlinks_node) dict \<times> link_entry list" where
  "export_half_edge now_ts threshold_sec states node_a_info conn acc =
     (case conn of (node_b_prefix, link_info) \<Rightarrow>
      case acc of (node_data, link_data) \<Rightarrow>
        if now_ts - get_last_seen link_info > threshold_sec then acc
        else
          case get_node_info states node_b_prefix of
            None \<Rightarrow> acc
          | Some node_b_info \<Rightarrow>
              (let entry = (case map_of node_data (pubkey node_a_info) of
                              None \<Rightarrow> \<lparr>dl_name = name node_a_info, dl_lat = lat node_a_info,
                                        dl_lon = lon node_a_info,
                                        dl_node_type = node_type node_a_info, link_count = 0\<rparr>
                            | Some e \<Rightarrow> e);
                   node_data' = AList.update (pubkey node_a_info)
                                  (entry\<lparr>link_count := link_count entry + 1\<rparr>) node_data;
                   k = link_key (pubkey node_a_info) (pubkey node_b_info)
               in case merge_existing k (get_count link_info 1) link_data of
                    (existing, link_data') \<Rightarrow>
                      if existing then (node_data', link_data')
                      else (node_data',
                            link_data @
                              [\<lparr>from_pubkey = pubkey node_a_info, from_name = name node_a_info,
                                from_lat = lat node_a_info, from_lon = lon node_a_info,
                                to_pubkey = pubkey node_b_info, to_name = name node_b_info,
                                to_lat = lat node_b_info, to_lon = lon node_b_info,
                                l_count = get_count link_info 1\<rparr>])))"

text \<open>The body of the outer loop \<^verbatim>\<open>for node_a_prefix, connections in direct_links.items()\<close>.\<close>

definition export_source ::
  "real \<Rightarrow> real \<Rightarrow> state list \<Rightarrow> string \<times> (string, link_data) dict \<Rightarrow>
   (string, directlinks_node) dict \<times> link_entry list \<Rightarrow>
   (string, directlinks_node) dict \<times> link_entry list" where
  "export_source now_ts threshold_sec states src acc =
     (case src of (node_a_prefix, connections) \<Rightarrow>
        case get_node_info states node_a_prefix of
          None \<Rightarrow> acc
        | Some node_a_info \<Rightarrow>
            fold (export_half_edge now_ts threshold_sec states node_a_info) connections acc)"

definition export_directlinks_data :: "real \<Rightarrow> real \<Rightarrow> state list \<Rightarrow> coordinator \<Rightarrow> directlinks_export" where
  "export_directlinks_data now_ts th_hours states c =
     (case fold (export_source now_ts (th_hours * 3600) states) (direct_links c) ([], []) of
        (node_data, link_data) \<Rightarrow>
          \<lparr>threshold_hours = th_hours,
           nodes = py_sort_desc link_count (map snd node_data),
           updated = now_ts,
           links = link_data\<rparr>)"

section \<open>Notions used to state the properties\<close>

text \<open>
  The content of a half-edge after \<open>n\<close> recordings at time \<open>t\<close>, given what the store
  held for it before: a missing half-edge is inserted with count 1 by the first recording,
  and every further recording adds 1; an existing one has its count (0 when the key is
  missing) raised by 1 each time. The timestamp is the one of the recording.
\<close>

definition recorded :: "real \<Rightarrow> nat \<Rightarrow> link_data option \<Rightarrow> link_data" where
  "recorded t n old =
     (case old of
        None \<Rightarrow> \<lparr>last_seen = Some t, count = Some (int n)\<rparr>
      | Some ld \<Rightarrow> ld\<lparr>last_seen := Some t, count := Some (get_count ld 0 + int n)\<rparr>)"

text \<open>
  How often the half-edge \<open>a \<rightarrow> b\<close> is recorded by one pass over a node sequence: once for
  every pair of neighbours \<open>(a, b)\<close> and once for every pair of neighbours \<open>(b, a)\<close>.
\<close>

fun pair_hits :: "string list \<Rightarrow> string \<Rightarrow> string \<Rightarrow> nat" where
  "pair_hits (x # y # rest) a b =
     (if x = a \<and> y = b then 1 else 0) + (if y = a \<and> x = b then 1 else 0)
       + pair_hits (y # rest) a b"
| "pair_hits ns a b = 0"

text \<open>A coordinator as \<^verbatim>\<open>__init__\<close> leaves it, with the default configuration.\<close>

definition initial :: coordinator where
  "initial =
     \<lparr>my_name = ''MyRepeater'', greet_enabled = True, direct_links = [],
      last_message_times = [], greeted_pubkeys = {}, calls = [], logged = []\<rparr>"

definition trace_nodes :: "string list" where
  "trace_nodes = [''aa1111111111'', ''bb2222222222'', ''cc3333333333'']"

definition trace_event :: event where
  "trace_event =
     \<lparr>event_type = ''EventType.RX_LOG_DATA'',
      event_payload = \<lparr>parsed_path_nodes = Some trace_nodes, public_key = None,
                       p_adv_name = None, p_type = None\<rparr>\<rparr>"

text \<open>A symmetric store with one link, as a snapshot might hold it.\<close>

definition linked_pair :: link_store where
  "linked_pair =
     [(''aa1111111111'', [(''bb2222222222'', \<lparr>last_seen = Some 10, count = Some 4\<rparr>)]),
      (''bb2222222222'', [(''aa1111111111'', \<lparr>last_seen = Some 10, count = Some 4\<rparr>)])]"

text \<open>Two optional half-edges agree: both are missing, or both are there and agree.\<close>

definition half_edges_agree :: "link_data option \<Rightarrow> link_data option \<Rightarrow> bool" where
  "half_edges_agree p q =
     (case p of None \<Rightarrow> q = None | Some ld \<Rightarrow> agrees ld q)"

text \<open>A symmetric store with a stale link and a fresh one, for the clock reading 2000000.\<close>

definition aged_store :: link_store where
  "aged_store =
     [(''aa1111111111'', [(''bb2222222222'', \<lparr>last_seen = Some 1000100, count = Some 3\<rparr>),
                          (''cc3333333333'', \<lparr>last_seen = Some 1900000, count = Some 1\<rparr>)]),
      (''bb2222222222'', [(''aa1111111111'', \<lparr>last_seen = Some 1000100, count = Some 3\<rparr>)]),
      (''cc3333333333'', [(''aa1111111111'', \<lparr>last_seen = Some 1900000, count = Some 1\<rparr>)])]"

text \<open>
  A clock reading one double above seven days, and a store whose link was last seen a
  little after half the distance of that double to seven days.
\<close>

definition boundary_now :: real where
  "boundary_now = 604800 + 1 / 2 ^ 33"

definition boundary_seen :: real where
  "boundary_seen = 1 / 2 ^ 34 + 1 / 2 ^ 60"

definition boundary_store :: link_store where
  "boundary_store =
     [(''aa1111111111'', [(''bb2222222222'', \<lparr>last_seen = Some boundary_seen, count = Some 1\<rparr>)]),
      (''bb2222222222'', [(''aa1111111111'', \<lparr>last_seen = Some boundary_seen, count = Some 1\<rparr>)])]"

text \<open>
  Some outbound command of \<^verbatim>\<open>_send_greeting\<close> raises: the channel message does, or it
  returns and the notification does.
\<close>

definition greeting_raises :: "sink \<Rightarrow> coordinator \<Rightarrow> string \<Rightarrow> string \<Rightarrow> bool" where
  "greeting_raises snk c nm pk =
     (case snk (calls c) (channel_message_call c nm) of
        Some e \<Rightarrow> True
      | None \<Rightarrow> snk (calls c @ [channel_message_call c nm]) (notification_call nm pk) \<noteq> None)"

text \<open>The identity \<^verbatim>\<open>_process_new_contact\<close> derives from a payload.\<close>

definition identity_of :: "payload \<Rightarrow> string" where
  "identity_of p = take 12 (case public_key p of None \<Rightarrow> [] | Some k \<Rightarrow> k)"

text \<open>The display name \<^verbatim>\<open>_process_new_contact\<close> reads from a payload.\<close>

definition display_name_of :: "payload \<Rightarrow> string" where
  "display_name_of p = (case p_adv_name p of None \<Rightarrow> ''Unknown'' | Some n \<Rightarrow> n)"

text \<open>A sink that is down, and one on which notifications fail.\<close>

definition unavailable :: sink where
  "unavailable = (\<lambda>history sc. Some ''unavailable'')"

definition no_notifications :: sink where
  "no_notifications =
     (\<lambda>history sc. if domain sc = ''persistent_notification'' then Some ''rejected'' else None)"

text \<open>
  The type code of a client. The handler's comment names the repeater (2) and the room
  server (3) as the nodes that are not clients; a chat client advertises itself with 1.
\<close>

definition client_type :: int where
  "client_type = 1"

text \<open>New-contact payloads: a client (type 1), a room server (type 3), a repeater (type 2).\<close>

definition new_contact :: "string \<Rightarrow> string \<Rightarrow> int \<Rightarrow> payload" where
  "new_contact key nm t =
     \<lparr>parsed_path_nodes = None, public_key = Some key, p_adv_name = Some nm, p_type = Some t\<rparr>"

text \<open>
  The resolver's contract in the words of its description. A state is a candidate for a
  prefix when it is a contact record, it has an identity (a non-empty \<open>pubkey_prefix\<close>) that
  starts with the prefix, both compared in lower case, and it has coordinates (both
  truthy). \<open>as_node\<close> is the node a candidate resolves to.
\<close>

definition has_coordinates :: "state \<Rightarrow> bool" where
  "has_coordinates st = (truthy (get_lat (attributes st)) \<and> truthy (get_lon (attributes st)))"

definition candidate :: "string \<Rightarrow> state \<Rightarrow> bool" where
  "candidate p st =
     (is_contact_entity st \<and>
      (case pubkey_prefix (attributes st) of
         None \<Rightarrow> False
       | Some k \<Rightarrow> k \<noteq> [] \<and> prefix (lower p) (lower k)) \<and>
      has_coordinates st)"

definition as_node :: "state \<Rightarrow> node_info" where
  "as_node st =
     \<lparr>name = get_str (adv_name (attributes st)) ''Unknown'',
      lat = (case get_lat (attributes st) of None \<Rightarrow> 0 | Some x \<Rightarrow> x),
      lon = (case get_lon (attributes st) of None \<Rightarrow> 0 | Some x \<Rightarrow> x),
      pubkey = lower (get_str (pubkey_prefix (attributes st)) []),
      node_type = lower (get_str (node_type_str (attributes st)) ''Unknown''),
      m_last_advert = (case last_advert (attributes st) of None \<Rightarrow> 0 | Some t \<Rightarrow> t)\<rparr>"

definition candidates :: "state list \<Rightarrow> string \<Rightarrow> node_info list" where
  "candidates states p = map as_node (filter (candidate p) states)"


text \<open>A snapshot of the host's states: five contact records and a hop sensor.\<close>

definition contact :: "string \<Rightarrow> string \<Rightarrow> real \<Rightarrow> real \<Rightarrow> string \<Rightarrow> string \<Rightarrow> real \<Rightarrow> state" where
  "contact eid pk la lo nm ty adv =
     \<lparr>entity_id = eid,
      attributes = \<lparr>pubkey_prefix = Some pk, adv_lat = Some la, latitude = None,
                    adv_lon = Some lo, longitude = None, adv_name = Some nm,
                    node_type_str = Some ty, last_advert = Some adv,
                    last_message_time = None, path_nodes = None\<rparr>\<rparr>"

definition alpha :: state where
  "alpha = contact ''binary_sensor.meshcore_aa11_contact'' ''aa1111111111'' 51 7 ''Alpha'' ''Client'' 500"

definition bravo :: state where
  "bravo = contact ''binary_sensor.meshcore_aa22_contact'' ''AA2222222222'' 52 8 ''Bravo'' ''Repeater'' 300"

definition charlie :: state where
  "charlie = contact ''binary_sensor.meshcore_aa33_contact'' ''aa3333333333'' 53 9 ''Charlie'' ''Repeater'' 300"

definition delta :: state where
  "delta = contact ''binary_sensor.meshcore_aa44_contact'' ''aa4444444444'' 0 9 ''Delta'' ''Repeater'' 900"

definition echo :: state where
  "echo = contact ''binary_sensor.meshcore_bb22_contact'' ''bb2222222222'' 48 11 ''Echo'' ''Client'' 700"

definition hop_sensor :: state where
  "hop_sensor =
     \<lparr>entity_id = ''sensor.meshcore_hops_alice'',
      attributes = \<lparr>pubkey_prefix = None, adv_lat = None, latitude = None, adv_lon = None,
                    longitude = None, adv_name = None, node_type_str = None,
                    last_advert = None, last_message_time = Some 900,
                    path_nodes = Some [''aa11'', ''bb'', ''aa44'']\<rparr>\<rparr>"

definition snapshot :: "state list" where
  "snapshot = [alpha, bravo, charlie, delta, echo, hop_sensor]"

text \<open>Every node of the heatmap table has a latitude and a longitude other than 0.\<close>

definition placed :: "(string, heatmap_node) dict \<Rightarrow> bool" where
  "placed node_data = (\<forall>(k, e) \<in> set node_data. hm_lat e \<noteq> 0 \<and> hm_lon e \<noteq> 0)"

text \<open>
  The half-edges the direct-links export takes into account, in the order of the two
  loops: those of a source that resolves, within the threshold, and with a destination
  that resolves. Each comes with the two resolved nodes.
\<close>

definition resolved_half_edges ::
  "real \<Rightarrow> real \<Rightarrow> state list \<Rightarrow> link_store \<Rightarrow> (node_info \<times> node_info \<times> link_data) list" where
  "resolved_half_edges now_ts threshold_sec states s =
     concat (map (\<lambda>(node_a_prefix, connections).
        case get_node_info states node_a_prefix of
          None \<Rightarrow> []
        | Some a_info \<Rightarrow>
            List.map_filter (\<lambda>(node_b_prefix, link_info).
               if now_ts - get_last_seen link_info > threshold_sec then None
               else map_option (\<lambda>b_info. (a_info, b_info, link_info))
                      (get_node_info states node_b_prefix))
              connections) s)"

text \<open>The unordered pair of resolved identities a half-edge joins, and the count it carries.\<close>

definition edge_key :: "node_info \<times> node_info \<times> link_data \<Rightarrow> string \<times> string" where
  "edge_key e = (case e of (a_info, b_info, link_info) \<Rightarrow> link_key (pubkey a_info) (pubkey b_info))"

definition edge_count :: "node_info \<times> node_info \<times> link_data \<Rightarrow> int" where
  "edge_count e = (case e of (a_info, b_info, link_info) \<Rightarrow> get_count link_info 1)"

text \<open>What one resolved half-edge does to the list of links.\<close>

definition add_link :: "node_info \<times> node_info \<times> link_data \<Rightarrow> link_entry list \<Rightarrow> link_entry list" where
  "add_link e link_data =
     (case e of (a_info, b_info, link_info) \<Rightarrow>
        case merge_existing (link_key (pubkey a_info) (pubkey b_info)) (get_count link_info 1)
               link_data of
          (existing, link_data') \<Rightarrow>
            if existing then link_data'
            else link_data @
                   [\<lparr>from_pubkey = pubkey a_info, from_name = name a_info,
                     from_lat = lat a_info, from_lon = lon a_info,
                     to_pubkey = pubkey b_info, to_name = name b_info,
                     to_lat = lat b_info, to_lon = lon b_info,
                     l_count = get_count link_info 1\<rparr>])"

text \<open>The list of links is deduplicated with respect to a list of half-edges.\<close>

definition merged :: "(node_info \<times> node_info \<times> link_data) list \<Rightarrow> link_entry list \<Rightarrow> bool" where
  "merged es ls =
     (distinct (map entry_key ls) \<and>
      entry_key ` set ls = edge_key ` set es \<and>
      (\<forall>l \<in> set ls.
         (\<forall>e \<in> set es. edge_key e = entry_key l \<longrightarrow> edge_count e \<le> l_count l) \<and>
         (\<exists>e \<in> set es. edge_key e = entry_key l \<and> edge_count e = l_count l)))"

text \<open>A store whose two half-edges between the same nodes were recorded independently.\<close>

definition uneven_store :: link_store where
  "uneven_store =
     [(''aa1111111111'', [(''bb2222222222'', \<lparr>last_seen = Some 900, count = Some 3\<rparr>)]),
      (''bb2222222222'', [(''aa1111111111'', \<lparr>last_seen = Some 950, count = Some 5\<rparr>)])]"

section \<open>Properties of the link store\<close>

lemma link_Some_keys:
  assumes "link s a b = Some ld"
  shows "a \<in> set (map fst s)"
    and "b \<in> set (map fst (case map_of s a of None \<Rightarrow> [] | Some cs \<Rightarrow> cs))"
proof -
  from assms obtain cs where cs: "map_of s a = Some cs" and b: "map_of cs b = Some ld"
    by (auto simp: link_def split: option.splits)
  from cs show "a \<in> set (map fst s)"
    by (metis map_of_eq_None_iff option.distinct(1) set_map)
  from b have "b \<in> set (map fst cs)"
    by (metis map_of_eq_None_iff option.distinct(1) set_map)
  with cs show "b \<in> set (map fst (case map_of s a of None \<Rightarrow> [] | Some cs \<Rightarrow> cs))"
    by simp
qed

lemma symmetric_iff:
  "symmetric s \<longleftrightarrow> (\<forall>a b ld. link s a b = Some ld \<longrightarrow> agrees ld (link s b a))"
proof
  assume sym: "symmetric s"
  show "\<forall>a b ld. link s a b = Some ld \<longrightarrow> agrees ld (link s b a)"
  proof (intro allI impI)
    fix a b ld
    assume l: "link s a b = Some ld"
    from link_Some_keys [OF l] sym l show "agrees ld (link s b a)"
      unfolding symmetric_def by fastforce
  qed
next
  assume "\<forall>a b ld. link s a b = Some ld \<longrightarrow> agrees ld (link s b a)"
  then show "symmetric s"
    unfolding symmetric_def by (auto split: option.splits)
qed

lemma link_record_direct_link:
  "link (direct_links (record_direct_link c a b t)) x y =
     (if x = a \<and> y = b then Some (recorded t 1 (link (direct_links c) a b))
      else link (direct_links c) x y)"
  by (auto simp: record_direct_link_def link_def recorded_def Let_def update_conv'
           split: option.splits)


lemma recorded_recorded:
  "0 < m \<Longrightarrow> recorded t n (Some (recorded t m old)) = recorded t (n + m) old"
  by (cases old) (simp_all add: recorded_def get_count_def)

lemma link_record_pair:
  "link (direct_links (record_direct_link (record_direct_link c a b t) b a t)) x y =
     (if a = b
      then (if x = a \<and> y = a then Some (recorded t 2 (link (direct_links c) a a))
            else link (direct_links c) x y)
      else if x = a \<and> y = b then Some (recorded t 1 (link (direct_links c) a b))
      else if x = b \<and> y = a then Some (recorded t 1 (link (direct_links c) b a))
      else link (direct_links c) x y)"
proof (cases "a = b")
  case True
  then show ?thesis
    by (simp add: link_record_direct_link recorded_recorded numeral_2_eq_2)
next
  case False
  then have "b \<noteq> a" by blast
  with False show ?thesis
    by (simp add: link_record_direct_link)
qed

lemma link_record_pair_hits:
  "link (direct_links (record_direct_link (record_direct_link c a b t) b a t)) x y =
     (let n = pair_hits [a, b] x y in
      if n = 0 then link (direct_links c) x y else Some (recorded t n (link (direct_links c) x y)))"
proof (cases "a = b")
  case True
  then show ?thesis
    by (auto simp add: link_record_pair Let_def numeral_2_eq_2)
next
  case False
  then have "b \<noteq> a" by blast
  with False show ?thesis
    by (auto simp add: link_record_pair Let_def)
qed

lemma pair_hits_Cons2:
  "pair_hits (x # y # rest) a b = pair_hits [x, y] a b + pair_hits (y # rest) a b"
  by simp

lemma compose_recordings:
  fixes old :: "link_data option"
  assumes "mid = (if h = 0 then old else Some (recorded t h old))"
  shows "(if n = 0 then mid else Some (recorded t n mid)) =
         (if h + n = 0 then old else Some (recorded t (h + n) old))"
  using assms by (auto simp: recorded_recorded add.commute)

lemma link_record_path:
  "link (direct_links (record_path c ns t)) a b =
     (if pair_hits (map lower ns) a b = 0 then link (direct_links c) a b
      else Some (recorded t (pair_hits (map lower ns) a b) (link (direct_links c) a b)))"
proof (induction c ns t rule: record_path.induct)
  case (1 c x y rest now_ts)
  let ?c2 = "record_direct_link (record_direct_link c (lower x) (lower y) now_ts) (lower y) (lower x) now_ts"
  let ?h = "pair_hits [lower x, lower y] a b"
  let ?n = "pair_hits (map lower (y # rest)) a b"
  have mid: "link (direct_links ?c2) a b =
      (if ?h = 0 then link (direct_links c) a b else Some (recorded now_ts ?h (link (direct_links c) a b)))"
    by (simp only: link_record_pair_hits Let_def)
  have "link (direct_links (record_path c (x # y # rest) now_ts)) a b =
        link (direct_links (record_path ?c2 (y # rest) now_ts)) a b"
    by (simp add: Let_def)
  also have "\<dots> = (if ?n = 0 then link (direct_links ?c2) a b
                    else Some (recorded now_ts ?n (link (direct_links ?c2) a b)))"
    using "1.IH" [OF refl refl refl refl] .
  also have "\<dots> = (if ?h + ?n = 0 then link (direct_links c) a b
                    else Some (recorded now_ts (?h + ?n) (link (direct_links c) a b)))"
    by (rule compose_recordings [OF mid])
  also have "?h + ?n = pair_hits (map lower (x # y # rest)) a b"
    by simp
  finally show ?case .
qed simp_all


lemma pair_hits_swap: "pair_hits ns b a = pair_hits ns a b"
  by (induction ns a b rule: pair_hits.induct) (simp_all add: conj_commute ac_simps)

lemma symmetric_half_edges:
  "symmetric s \<longleftrightarrow> (\<forall>a b. half_edges_agree (link s a b) (link s b a))"
proof
  assume sym: "symmetric s"
  show "\<forall>a b. half_edges_agree (link s a b) (link s b a)"
  proof (intro allI)
    fix a b
    show "half_edges_agree (link s a b) (link s b a)"
    proof (cases "link s a b")
      case None
      have "link s b a = None"
      proof (cases "link s b a")
        case (Some ld')
        with sym have "agrees ld' (link s a b)"
          by (simp add: symmetric_iff)
        with None show ?thesis
          by (simp add: agrees_def)
      qed simp
      with None show ?thesis
        by (simp add: half_edges_agree_def)
    next
      case (Some ld)
      with sym show ?thesis
        by (simp add: symmetric_iff half_edges_agree_def)
    qed
  qed
next
  assume "\<forall>a b. half_edges_agree (link s a b) (link s b a)"
  then show "symmetric s"
    unfolding symmetric_iff half_edges_agree_def by (auto split: option.splits)
qed

lemma agrees_recorded:
  "half_edges_agree p q \<Longrightarrow> agrees (recorded t n p) (Some (recorded t n q))"
  by (auto simp: half_edges_agree_def agrees_def recorded_def get_count_def
           split: option.splits)

lemma symmetric_record_pair:
  assumes "symmetric (direct_links c)"
  shows "symmetric (direct_links (record_direct_link (record_direct_link c a b t) b a t))"
  unfolding symmetric_half_edges
proof (intro allI)
  fix x y
  let ?s = "direct_links c"
  from assms have old: "half_edges_agree (link ?s x y) (link ?s y x)"
    by (simp add: symmetric_half_edges)
  show "half_edges_agree
          (link (direct_links (record_direct_link (record_direct_link c a b t) b a t)) x y)
          (link (direct_links (record_direct_link (record_direct_link c a b t) b a t)) y x)"
  proof (cases "pair_hits [a, b] x y = 0")
    case True
    with old show ?thesis
      by (simp only: link_record_pair_hits Let_def pair_hits_swap [of _ y x] if_True simp_thms)
  next
    case False
    with agrees_recorded [OF old] show ?thesis
      by (simp only: link_record_pair_hits Let_def pair_hits_swap [of _ y x] if_False
            half_edges_agree_def option.case simp_thms)
  qed
qed

lemma symmetric_record_path:
  "symmetric (direct_links c) \<Longrightarrow> symmetric (direct_links (record_path c ns t))"
proof (induction c ns t rule: record_path.induct)
  case (1 c x y rest now_ts)
  then show ?case
    by (simp add: Let_def symmetric_record_pair)
qed simp_all

lemma symmetric_process_rx_log_data:
  "symmetric (direct_links c) \<Longrightarrow> symmetric (direct_links (process_rx_log_data t c p))"
  by (simp add: process_rx_log_data_def Let_def symmetric_record_path)

lemma direct_links_greeting_failed [simp]:
  "direct_links (greeting_failed c pk e) = direct_links c"
  by (simp add: greeting_failed_def)

lemma direct_links_send_greeting [simp]:
  "direct_links (send_greeting snk c n pk) = direct_links c"
  by (simp add: send_greeting_def services_call_def Let_def split: option.splits)

lemma direct_links_process_new_contact [simp]:
  "direct_links (process_new_contact snk c p) = direct_links c"
  by (simp add: process_new_contact_def Let_def)

lemma symmetric_handle_meshcore_event:
  "symmetric (direct_links c) \<Longrightarrow> symmetric (direct_links (handle_meshcore_event snk c ev))"
  by (cases ev) (simp add: handle_meshcore_event_def symmetric_process_rx_log_data)

lemma symmetric_handle_events:
  "symmetric (direct_links c) \<Longrightarrow> symmetric (direct_links (handle_events snk c evs))"
  unfolding handle_events_def
  by (induction evs arbitrary: c) (simp_all add: symmetric_handle_meshcore_event)

lemma lower_trace_nodes:
  "map lower trace_nodes = trace_nodes"
  unfolding trace_nodes_def by code_simp

text \<open>
  Claim C1. Starting from a symmetric store, after any sequence of events (every path-trace
  event records each pair of neighbours in both directions, a new-contact event leaves the
  store alone), the store is symmetric: whenever \<open>direct_links[a][b]\<close> exists,
  \<open>direct_links[b][a]\<close> exists with the same count and the same last_seen.
\<close>

theorem symmetry_invariant:
  assumes "symmetric (direct_links c)"
  shows "symmetric (direct_links (handle_events snk c evs)) \<and>
         (\<forall>a b ld. link (direct_links (handle_events snk c evs)) a b = Some ld \<longrightarrow>
            (\<exists>ld'. link (direct_links (handle_events snk c evs)) b a = Some ld' \<and>
                   count ld' = count ld \<and> last_seen ld' = last_seen ld))"
proof (intro conjI allI impI)
  show sym: "symmetric (direct_links (handle_events snk c evs))"
    using assms by (rule symmetric_handle_events)
  fix a b ld
  assume "link (direct_links (handle_events snk c evs)) a b = Some ld"
  with sym have "agrees ld (link (direct_links (handle_events snk c evs)) b a)"
    by (simp add: symmetric_iff)
  then show "\<exists>ld'. link (direct_links (handle_events snk c evs)) b a = Some ld' \<and>
                 count ld' = count ld \<and> last_seen ld' = last_seen ld"
    by (cases "link (direct_links (handle_events snk c evs)) b a") (simp_all add: agrees_def)
qed

theorem symmetry_invariant_witness:
  "symmetric (direct_links (initial\<lparr>direct_links := linked_pair\<rparr>)) \<and>
   symmetric (direct_links (handle_events reliable (initial\<lparr>direct_links := linked_pair\<rparr>)
      [(1000, trace_event), (2000, trace_event)])) \<and>
   (\<exists>ld'. link (direct_links (handle_events reliable (initial\<lparr>direct_links := linked_pair\<rparr>)
             [(1000, trace_event), (2000, trace_event)])) ''bb2222222222'' ''aa1111111111''
           = Some ld' \<and>
         count ld' = Some 6 \<and> last_seen ld' = Some 2000)"
proof -
  let ?final = "handle_events reliable (initial\<lparr>direct_links := linked_pair\<rparr>)
      [(1000, trace_event), (2000, trace_event)]"
  have start: "symmetric (direct_links (initial\<lparr>direct_links := linked_pair\<rparr>))"
    by code_simp
  have there: "link (direct_links ?final) ''aa1111111111'' ''bb2222222222''
      = Some \<lparr>last_seen = Some 2000, count = Some 6\<rparr>"
    by code_simp
  from symmetry_invariant [OF start, of reliable "[(1000, trace_event), (2000, trace_event)]"]
  have sym: "symmetric (direct_links ?final)"
    and mirror: "\<And>a b ld. link (direct_links ?final) a b = Some ld \<Longrightarrow>
            \<exists>ld'. link (direct_links ?final) b a = Some ld' \<and>
                  count ld' = count ld \<and> last_seen ld' = last_seen ld"
    by blast+
  from mirror [OF there] have
    "\<exists>ld'. link (direct_links ?final) ''bb2222222222'' ''aa1111111111'' = Some ld' \<and>
           count ld' = Some 6 \<and> last_seen ld' = Some 2000"
    by simp
  with start sym show ?thesis
    by blast
qed

lemma pair_hits_nth:
  "Suc i < length ns \<Longrightarrow> 0 < pair_hits ns (ns ! i) (ns ! Suc i)"
proof (induction ns arbitrary: i)
  case Nil
  then show ?case by simp
next
  case (Cons x xs)
  show ?case
  proof (cases xs)
    case Nil
    with Cons.prems show ?thesis by simp
  next
    case (Cons y rest)
    show ?thesis
    proof (cases i)
      case 0
      with Cons show ?thesis by simp
    next
      case (Suc j)
      with Cons.prems have "Suc j < length xs" by simp
      from Cons.IH [OF this] Suc Cons show ?thesis by simp
    qed
  qed
qed

text \<open>
  Claim C2. A path-trace event with fewer than two nodes (or none at all) leaves the
  coordinator as it is. Otherwise every half-edge of the store is what \<open>recorded\<close>
  describes: untouched when no pair of neighbours of the lower-cased sequence joins its
  two nodes, and else inserted with count 1 or raised by 1, once for every such pair, with
  last_seen set to the timestamp of the event. Every pair of neighbours is such a pair,
  in both directions.
\<close>

theorem path_trace_ingestion:
  "(length ns < 2 \<longrightarrow> process_rx_log_data t c (Some ns) = c) \<and>
   process_rx_log_data t c None = c \<and>
   (2 \<le> length ns \<longrightarrow>
      (\<forall>a b. link (direct_links (process_rx_log_data t c (Some ns))) a b =
         (if pair_hits (map lower ns) a b = 0 then link (direct_links c) a b
          else Some (recorded t (pair_hits (map lower ns) a b) (link (direct_links c) a b)))) \<and>
      (\<forall>i. Suc i < length ns \<longrightarrow>
         0 < pair_hits (map lower ns) (lower (ns ! i)) (lower (ns ! Suc i)) \<and>
         0 < pair_hits (map lower ns) (lower (ns ! Suc i)) (lower (ns ! i))))"
proof (intro conjI impI allI)
  assume "length ns < 2"
  then show "process_rx_log_data t c (Some ns) = c"
    by (simp add: process_rx_log_data_def)
next
  show "process_rx_log_data t c None = c"
    by (simp add: process_rx_log_data_def)
next
  fix a b
  assume "2 \<le> length ns"
  then have "process_rx_log_data t c (Some ns) = record_path c ns t"
    by (simp add: process_rx_log_data_def)
  then show "link (direct_links (process_rx_log_data t c (Some ns))) a b =
         (if pair_hits (map lower ns) a b = 0 then link (direct_links c) a b
          else Some (recorded t (pair_hits (map lower ns) a b) (link (direct_links c) a b)))"
    by (simp only: link_record_path)
next
  fix i
  assume i: "Suc i < length ns"
  then have "Suc i < length (map lower ns)"
    by simp
  from pair_hits_nth [OF this] i
  show fwd: "0 < pair_hits (map lower ns) (lower (ns ! i)) (lower (ns ! Suc i))"
    by simp
  then show "0 < pair_hits (map lower ns) (lower (ns ! Suc i)) (lower (ns ! i))"
    by (simp only: pair_hits_swap [of _ "lower (ns ! Suc i)" "lower (ns ! i)"])
qed

theorem path_trace_ingestion_witness:
  "process_rx_log_data 1000 initial (Some [''aa1111111111'']) = initial \<and>
   link (direct_links (process_rx_log_data 1000 initial (Some trace_nodes)))
     ''aa1111111111'' ''bb2222222222'' = Some \<lparr>last_seen = Some 1000, count = Some 1\<rparr> \<and>
   link (direct_links (process_rx_log_data 1000 initial (Some trace_nodes)))
     ''bb2222222222'' ''aa1111111111'' = Some \<lparr>last_seen = Some 1000, count = Some 1\<rparr> \<and>
   link (direct_links (process_rx_log_data 1000 initial (Some trace_nodes)))
     ''bb2222222222'' ''cc3333333333'' = Some \<lparr>last_seen = Some 1000, count = Some 1\<rparr> \<and>
   link (direct_links (process_rx_log_data 1000 initial (Some trace_nodes)))
     ''cc3333333333'' ''bb2222222222'' = Some \<lparr>last_seen = Some 1000, count = Some 1\<rparr> \<and>
   link (direct_links (process_rx_log_data 1000 initial (Some trace_nodes)))
     ''aa1111111111'' ''cc3333333333'' = None \<and>
   link (direct_links (process_rx_log_data 1000 initial (Some trace_nodes)))
     ''cc3333333333'' ''aa1111111111'' = None \<and>
   link (direct_links (process_rx_log_data 2000
           (process_rx_log_data 1000 initial (Some trace_nodes)) (Some trace_nodes)))
     ''aa1111111111'' ''bb2222222222'' = Some \<lparr>last_seen = Some 2000, count = Some 2\<rparr> \<and>
   link (direct_links (process_rx_log_data 2000
           (process_rx_log_data 1000 initial (Some trace_nodes)) (Some trace_nodes)))
     ''bb2222222222'' ''aa1111111111'' = Some \<lparr>last_seen = Some 2000, count = Some 2\<rparr> \<and>
   link (direct_links (process_rx_log_data 2000
           (process_rx_log_data 1000 initial (Some trace_nodes)) (Some trace_nodes)))
     ''bb2222222222'' ''cc3333333333'' = Some \<lparr>last_seen = Some 2000, count = Some 2\<rparr> \<and>
   link (direct_links (process_rx_log_data 2000
           (process_rx_log_data 1000 initial (Some trace_nodes)) (Some trace_nodes)))
     ''cc3333333333'' ''bb2222222222'' = Some \<lparr>last_seen = Some 2000, count = Some 2\<rparr> \<and>
   link (direct_links (process_rx_log_data 2000
           (process_rx_log_data 1000 initial (Some trace_nodes)) (Some trace_nodes)))
     ''aa1111111111'' ''cc3333333333'' = None \<and>
   link (direct_links (process_rx_log_data 2000
           (process_rx_log_data 1000 initial (Some trace_nodes)) (Some trace_nodes)))
     ''cc3333333333'' ''aa1111111111'' = None"
proof -
  let ?c1 = "process_rx_log_data 1000 initial (Some trace_nodes)"
  let ?c2 = "process_rx_log_data 2000 ?c1 (Some trace_nodes)"
  have len: "2 \<le> length trace_nodes"
    by (simp add: trace_nodes_def)
  have empty: "link (direct_links initial) a b = None" for a b
    by (simp add: initial_def link_def)
  have short: "process_rx_log_data 1000 initial (Some [''aa1111111111'']) = initial"
    using path_trace_ingestion [of "[''aa1111111111'']" 1000 initial] by simp
  have first: "link (direct_links ?c1) a b =
      (if pair_hits trace_nodes a b = 0 then None
       else Some (recorded 1000 (pair_hits trace_nodes a b) None))" for a b
    using path_trace_ingestion [of trace_nodes 1000 initial] len
    by (simp only: lower_trace_nodes empty simp_thms)
  have second: "link (direct_links ?c2) a b =
      (if pair_hits trace_nodes a b = 0 then link (direct_links ?c1) a b
       else Some (recorded 2000 (pair_hits trace_nodes a b) (link (direct_links ?c1) a b)))" for a b
    using path_trace_ingestion [of trace_nodes 2000 ?c1] len
    by (simp only: lower_trace_nodes simp_thms)
  have hits:
    "pair_hits trace_nodes ''aa1111111111'' ''bb2222222222'' = 1"
    "pair_hits trace_nodes ''bb2222222222'' ''aa1111111111'' = 1"
    "pair_hits trace_nodes ''bb2222222222'' ''cc3333333333'' = 1"
    "pair_hits trace_nodes ''cc3333333333'' ''bb2222222222'' = 1"
    "pair_hits trace_nodes ''aa1111111111'' ''cc3333333333'' = 0"
    "pair_hits trace_nodes ''cc3333333333'' ''aa1111111111'' = 0"
    by (simp_all add: trace_nodes_def)
  show ?thesis
    unfolding second first hits
    by (simp add: short recorded_def get_count_def)
qed

subsection \<open>Rounding of doubles\<close>

lemma round_half_even_of_int [simp]: "round_half_even (of_int k) = k"
  by (simp add: round_half_even_def)

lemma floor_le_round_half_even: "\<lfloor>y\<rfloor> \<le> round_half_even y"
  by (simp add: round_half_even_def Let_def)

lemma double_quantum_pos [simp]: "0 < double_quantum x"
  by (simp add: double_quantum_def)

lemma double_exponent_eq:
  assumes "2 powr of_int e \<le> \<bar>x\<bar>" and "\<bar>x\<bar> < 2 powr of_int (e + 1)" and "- 1022 \<le> e"
  shows "double_exponent x = e"
proof -
  have "0 < (2::real) powr of_int e"
    by simp
  with assms(1) have "0 < \<bar>x\<bar>"
    by linarith
  with assms(1,2) have "\<lfloor>log 2 \<bar>x\<bar>\<rfloor> = e"
    by (simp add: floor_log_eq_powr_iff)
  with assms(3) show ?thesis
    by (simp add: double_exponent_def)
qed

lemma double_round_of_int:
  assumes "\<bar>n\<bar> < 2 ^ 53"
  shows "double_round (of_int n) = of_int n"
proof (cases "n = 0")
  case True
  then show ?thesis by (simp add: double_round_def)
next
  case False
  define e where "e = double_exponent (of_int n)"
  from False have "1 \<le> \<bar>n\<bar>"
    by simp
  then have "real_of_int 1 \<le> real_of_int \<bar>n\<bar>"
    by (simp only: of_int_le_iff)
  then have one: "1 \<le> \<bar>real_of_int n\<bar>"
    by simp
  then have "0 \<le> log 2 \<bar>real_of_int n\<bar>"
    by simp
  then have lo: "0 \<le> \<lfloor>log 2 \<bar>real_of_int n\<bar>\<rfloor>"
    by simp
  from assms have "real_of_int \<bar>n\<bar> < real_of_int (2 ^ 53)"
    by (simp only: of_int_less_iff)
  then have "\<bar>real_of_int n\<bar> < 2 ^ 53"
    by simp
  then have "\<bar>real_of_int n\<bar> < 2 powr 53"
    by simp
  with one have "log 2 \<bar>real_of_int n\<bar> < 53"
    by (simp add: log_less_iff)
  then have hi: "\<lfloor>log 2 \<bar>real_of_int n\<bar>\<rfloor> \<le> 52"
    by (simp add: floor_le_iff)
  from lo hi have e: "0 \<le> e" "e \<le> 52" and e_eq: "e = \<lfloor>log 2 \<bar>real_of_int n\<bar>\<rfloor>"
    by (simp_all add: e_def double_exponent_def)
  from e have "real_of_int (e - 52) = - real (nat (52 - e))"
    by simp
  then have "(2::real) powr real_of_int (e - 52) = inverse (2 powr real (nat (52 - e)))"
    by (simp only: powr_minus)
  then have q: "double_quantum (of_int n) = 1 / 2 ^ nat (52 - e)"
    by (simp add: double_quantum_def e_def [symmetric] powr_realpow inverse_eq_divide)
  have "real_of_int n / double_quantum (of_int n) = of_int (n * 2 ^ nat (52 - e))"
    by (simp add: q)
  then have "round_half_even (real_of_int n / double_quantum (of_int n)) = n * 2 ^ nat (52 - e)"
    by (simp only: round_half_even_of_int)
  with False show ?thesis
    by (simp add: double_round_def q)
qed

lemma is_double_of_int: "\<bar>n\<bar> < 2 ^ 53 \<Longrightarrow> is_double (of_int n)"
  by (simp add: is_double_def double_round_of_int)

lemma fsub_of_int:
  "\<bar>a - b\<bar> < 2 ^ 53 \<Longrightarrow> fsub (of_int a) (of_int b) = of_int (a - b)"
  using double_round_of_int [of "a - b"] by (simp add: fsub_def)


lemma two_powr_nat: "(2::real) powr real n = 2 ^ n"
  by (simp add: powr_realpow)

lemma two_powr_neg33: "(2::real) powr real_of_int (19 - 52) = 1 / 2 ^ 33"
proof -
  have "(2::real) powr real_of_int (19 - 52) = 2 powr (- real (33::nat))"
    by simp
  also have "\<dots> = inverse (2 powr real (33::nat))"
    by (simp only: powr_minus)
  also have "\<dots> = 1 / 2 ^ 33"
    by (simp only: two_powr_nat inverse_eq_divide)
  finally show ?thesis .
qed

lemma double_quantum_19:
  assumes "2 ^ 19 \<le> \<bar>x\<bar>" and "\<bar>x\<bar> < 2 ^ 20"
  shows "double_quantum x = 1 / 2 ^ 33"
proof -
  from assms have "2 powr of_int 19 \<le> \<bar>x\<bar>" "\<bar>x\<bar> < 2 powr of_int (19 + 1)"
    by simp_all
  then have "double_exponent x = 19"
    by (rule double_exponent_eq) simp
  then show ?thesis
    by (simp only: double_quantum_def two_powr_neg33)
qed

lemma boundary_rounds_down:
  "fsub boundary_now boundary_seen = 604800"
proof -
  define x :: real where "x = 604800 + 1 / 2 ^ 33 - (1 / 2 ^ 34 + 1 / 2 ^ 60)"
  have bounds: "2 ^ 19 \<le> \<bar>x\<bar>" "\<bar>x\<bar> < 2 ^ 20"
    by (simp_all add: x_def)
  have q: "double_quantum x = 1 / 2 ^ 33"
    using bounds by (rule double_quantum_19)
  have "x / (1 / 2 ^ 33) = of_int (604800 * 2 ^ 33) + (1 / 2 - 1 / 2 ^ 27)"
    by (simp add: x_def)
  then have scaled: "x / double_quantum x = of_int (604800 * 2 ^ 33) + (1 / 2 - 1 / 2 ^ 27)"
    by (simp only: q)
  have fl: "\<lfloor>x / double_quantum x\<rfloor> = 604800 * 2 ^ 33"
    unfolding scaled by (rule floor_unique) simp_all
  have "round_half_even (x / double_quantum x) = 604800 * 2 ^ 33"
    unfolding round_half_even_def Let_def fl by (simp add: scaled)
  moreover have "x \<noteq> 0"
    using bounds by auto
  ultimately have "double_round x = 604800"
    by (simp add: double_round_def q)
  then show ?thesis
    by (simp add: fsub_def x_def boundary_now_def boundary_seen_def)
qed

lemma boundary_is_older: "boundary_seen < boundary_now - 7 * 24 * 3600"
  by (simp add: boundary_now_def boundary_seen_def)

lemma double_multiple:
  assumes "is_double x" and "2 ^ 19 \<le> x"
  shows "\<exists>k::int. x * 2 ^ 33 = of_int k"
proof -
  have "(0::real) < 2 ^ 19"
    by simp
  with assms(2) have pos: "0 < x"
    by linarith
  from assms(2) have "2 powr 19 \<le> \<bar>x\<bar>"
    by simp
  with pos have "19 \<le> log 2 \<bar>x\<bar>"
    by (simp add: le_log_iff)
  then have "19 \<le> \<lfloor>log 2 \<bar>x\<bar>\<rfloor>"
    by (simp add: le_floor_iff)
  then have e: "19 \<le> double_exponent x"
    by (simp add: double_exponent_def)
  define m where "m = round_half_even (x / double_quantum x)"
  from assms(1) pos have x: "x = of_int m * double_quantum x"
    by (simp add: is_double_def double_round_def m_def)
  have "double_quantum x * 2 ^ 33 = 2 powr real_of_int (double_exponent x - 52) * 2 powr real (33::nat)"
    by (simp only: double_quantum_def two_powr_nat)
  also have "\<dots> = 2 powr (real_of_int (double_exponent x - 52) + real (33::nat))"
    by (simp only: powr_add)
  also have "real_of_int (double_exponent x - 52) + real (33::nat) = real (nat (double_exponent x - 19))"
    using e by simp
  also have "2 powr real (nat (double_exponent x - 19)) = 2 ^ nat (double_exponent x - 19)"
    by (simp add: powr_realpow)
  finally have "double_quantum x * 2 ^ 33 = of_int (2 ^ nat (double_exponent x - 19))"
    by simp
  then have "x * 2 ^ 33 = of_int (m * 2 ^ nat (double_exponent x - 19))"
    using x by (metis (no_types, lifting) mult.assoc of_int_mult)
  then show ?thesis ..
qed

lemma double_round_large:
  assumes "2 ^ 20 \<le> d"
  shows "2 ^ 20 \<le> double_round d"
proof -
  have "(0::real) < 2 ^ 20"
    by simp
  with assms have pos: "0 < d"
    by linarith
  define e where "e = double_exponent d"
  from assms have "2 powr 20 \<le> \<bar>d\<bar>"
    by simp
  with pos have "20 \<le> log 2 \<bar>d\<bar>"
    by (simp add: le_log_iff)
  then have fl: "20 \<le> \<lfloor>log 2 \<bar>d\<bar>\<rfloor>"
    by (simp add: le_floor_iff)
  then have e20: "20 \<le> e" and e_eq: "e = \<lfloor>log 2 \<bar>d\<bar>\<rfloor>"
    by (simp_all add: e_def double_exponent_def)
  from pos have "2 powr of_int \<lfloor>log 2 d\<rfloor> \<le> d"
    using floor_log_eq_powr_iff [of d 2 "\<lfloor>log 2 d\<rfloor>"] by simp
  with pos e_eq have low: "2 powr of_int e \<le> d"
    by simp
  have q: "double_quantum d = 2 powr of_int (e - 52)"
    by (simp add: double_quantum_def e_def)
  have "2 powr of_int e = 2 powr (of_int (e - 52) + real (52::nat))"
    by simp
  also have "\<dots> = 2 powr of_int (e - 52) * 2 ^ 52"
    by (simp only: powr_add two_powr_nat)
  finally have split: "2 powr of_int e = double_quantum d * 2 ^ 52"
    by (simp add: q)
  with low have "double_quantum d * 2 ^ 52 \<le> d"
    by simp
  then have "2 ^ 52 \<le> d / double_quantum d"
    by (simp add: le_divide_eq mult.commute)
  then have "of_int (2 ^ 52) \<le> d / double_quantum d"
    by simp
  then have "2 ^ 52 \<le> \<lfloor>d / double_quantum d\<rfloor>"
    by (simp only: le_floor_iff)
  with floor_le_round_half_even [of "d / double_quantum d"]
  have "2 ^ 52 \<le> round_half_even (d / double_quantum d)"
    by linarith
  then have "real_of_int (2 ^ 52) \<le> of_int (round_half_even (d / double_quantum d))"
    by (simp only: of_int_le_iff)
  then have "2 ^ 52 * double_quantum d \<le> of_int (round_half_even (d / double_quantum d)) * double_quantum d"
    by (simp add: mult_right_mono)
  with split pos have "2 powr of_int e \<le> double_round d"
    by (simp add: double_round_def mult.commute)
  moreover from e20 have "real (20::nat) \<le> real_of_int e"
    by simp
  then have "(2::real) powr real (20::nat) \<le> 2 powr of_int e"
    by (rule powr_mono) simp
  then have "(2::real) ^ 20 \<le> 2 powr of_int e"
    by (simp only: two_powr_nat)
  ultimately show ?thesis
    by linarith
qed

lemma no_flip_on_real_clocks:
  assumes now: "is_double now" "1209600 \<le> now"
    and ls: "is_double ls"
    and older: "ls < now - 7 * 24 * 3600"
  shows "7 * 24 * 3600 < fsub now ls"
proof -
  define d where "d = now - ls"
  from older have d: "604800 < d"
    by (simp add: d_def)
  show ?thesis
  proof (cases "2 ^ 20 \<le> d")
    case True
    from double_round_large [OF this] show ?thesis
      by (simp add: fsub_def d_def)
  next
    case False
    then have d20: "d < 2 ^ 20"
      by simp
    with d have q: "double_quantum d = 1 / 2 ^ 33"
      by (intro double_quantum_19) simp_all
    have "604800 * 2 ^ 33 + 1 \<le> \<lfloor>d * 2 ^ 33\<rfloor>"
    proof (cases "2 ^ 19 \<le> ls")
      case True
      from double_multiple [OF ls this] obtain k :: int where k: "ls * 2 ^ 33 = of_int k"
        by blast
      from now(2) have "2 ^ 19 \<le> now"
        by simp
      from double_multiple [OF now(1) this] obtain j :: int where j: "now * 2 ^ 33 = of_int j"
        by blast
      from j k have int: "d * 2 ^ 33 = of_int (j - k)"
        by (simp add: d_def algebra_simps)
      from d have "real_of_int (604800 * 2 ^ 33) < d * 2 ^ 33"
        by simp
      with int have "604800 * 2 ^ 33 < j - k"
        by (simp only: of_int_less_iff)
      with int show ?thesis
        by simp
    next
      case False
      with now(2) have "685312 < d"
        by (simp add: d_def)
      then have "real_of_int (604800 * 2 ^ 33 + 1) \<le> d * 2 ^ 33"
        by simp
      then show ?thesis
        by (simp only: le_floor_iff)
    qed
    with floor_le_round_half_even [of "d * 2 ^ 33"]
    have "604800 * 2 ^ 33 < round_half_even (d * 2 ^ 33)"
      by linarith
    then have "real_of_int (604800 * 2 ^ 33) < of_int (round_half_even (d * 2 ^ 33))"
      by (simp only: of_int_less_iff)
    moreover from d have "d \<noteq> 0"
      by simp
    ultimately have "604800 < double_round d"
      by (simp add: double_round_def q)
    then show ?thesis
      by (simp add: fsub_def d_def)
  qed
qed

lemma is_doubleI:
  assumes "2 powr of_int e \<le> \<bar>x\<bar>" and "\<bar>x\<bar> < 2 powr of_int (e + 1)" and "- 1022 \<le> e"
    and "x / 2 powr of_int (e - 52) = of_int k"
  shows "is_double x"
proof -
  from assms(1-3) have "double_exponent x = e"
    by (rule double_exponent_eq)
  then have q: "double_quantum x = 2 powr of_int (e - 52)"
    by (simp add: double_quantum_def)
  have "(2::real) powr of_int (e - 52) \<noteq> 0"
    by simp
  with assms(4) have "of_int k * 2 powr of_int (e - 52) = x"
    by (metis nonzero_divide_eq_eq)
  with q have xk: "of_int k * double_quantum x = x"
    by (rule ssubst)
  from assms(4) have r: "round_half_even (x / double_quantum x) = k"
    by (simp only: q round_half_even_of_int)
  show ?thesis
    unfolding is_double_def double_round_def r xk by simp
qed

lemma boundary_is_double: "is_double boundary_now" "is_double boundary_seen"
proof -
  show "is_double boundary_now"
    by (rule is_doubleI [of 19 _ "604800 * 2 ^ 33 + 1"])
       (simp_all only: two_powr_neg33, simp_all add: boundary_now_def)
  have p34: "(2::real) powr real_of_int (- 34) = 1 / 2 ^ 34"
    using two_powr_nat [of 34] by (simp add: powr_minus inverse_eq_divide)
  have p33: "(2::real) powr real_of_int (- 34 + 1) = 1 / 2 ^ 33"
    using two_powr_nat [of 33] by (simp add: powr_minus inverse_eq_divide)
  have p86: "(2::real) powr real_of_int (- 34 - 52) = 1 / 2 ^ 86"
    using two_powr_nat [of 86] by (simp add: powr_minus inverse_eq_divide)
  show "is_double boundary_seen"
    by (rule is_doubleI [of "- 34" _ "2 ^ 52 + 2 ^ 26"])
       (simp_all only: p34 p33 p86, simp_all add: boundary_seen_def)
qed

subsection \<open>Retention\<close>

lemma map_of_filter_values:
  "distinct (map fst xs) \<Longrightarrow>
   map_of (filter (\<lambda>(k, v). P v) xs) k =
     (case map_of xs k of None \<Rightarrow> None | Some v \<Rightarrow> if P v then Some v else None)"
proof (induction xs)
  case Nil
  then show ?case by simp
next
  case (Cons x xs)
  obtain k' v' where x: "x = (k', v')" by (cases x)
  from Cons.prems x have notin: "k' \<notin> fst ` set xs" by simp
  then have "map_of xs k' = None"
    by (simp add: map_of_eq_None_iff)
  with Cons x show ?case
    by (auto split: option.splits)
qed

lemma map_of_clean_connections:
  "distinct (map fst cs) \<Longrightarrow>
   map_of (clean_connections now cs) b =
     (case map_of cs b of None \<Rightarrow> None
      | Some ld \<Rightarrow> if fsub now (get_last_seen ld) \<le> max_age then Some ld else None)"
  unfolding clean_connections_def by (rule map_of_filter_values)

lemma keys_clean_links: "fst ` set (clean_links now s) \<subseteq> fst ` set s"
  by (induction now s rule: clean_links.induct) (auto simp: Let_def)

lemma distinct_clean_links:
  "distinct (map fst s) \<Longrightarrow> distinct (map fst (clean_links now s))"
proof (induction now s rule: clean_links.induct)
  case (2 now_ts node_a connections rest)
  from "2.prems" have "node_a \<notin> fst ` set rest" by simp
  with keys_clean_links [of now_ts rest] have "node_a \<notin> fst ` set (clean_links now_ts rest)"
    by blast
  with 2 show ?case
    by (simp add: Let_def)
qed simp

lemma map_of_clean_links:
  "distinct (map fst s) \<Longrightarrow>
   map_of (clean_links now s) a =
     (case map_of s a of None \<Rightarrow> None
      | Some cs \<Rightarrow> if clean_connections now cs = [] then None
                  else Some (clean_connections now cs))"
proof (induction now s rule: clean_links.induct)
  case (2 now_ts node_a connections rest)
  from "2.prems" have "node_a \<notin> fst ` set rest" by simp
  with keys_clean_links [of now_ts rest] have "node_a \<notin> fst ` set (clean_links now_ts rest)"
    by blast
  then have gone: "map_of (clean_links now_ts rest) node_a = None"
    by (simp add: map_of_eq_None_iff)
  from "2.prems" have "distinct (map fst rest)" by simp
  with 2 gone show ?case
    by (simp add: Let_def)
qed simp

lemma link_clean_links:
  assumes "wf_store s"
  shows "link (clean_links now s) a b =
     (case link s a b of None \<Rightarrow> None
      | Some ld \<Rightarrow> if fsub now (get_last_seen ld) \<le> max_age then Some ld else None)"
proof (cases "map_of s a")
  case None
  with assms show ?thesis
    by (simp add: link_def wf_store_def map_of_clean_links)
next
  case (Some cs)
  then have "(a, cs) \<in> set s"
    by (rule map_of_SomeD)
  with assms have "distinct (map fst cs)"
    by (auto simp: wf_store_def)
  note conns = map_of_clean_connections [OF this, of now b]
  show ?thesis
  proof (cases "clean_connections now cs = []")
    case True
    with conns [symmetric] Some assms show ?thesis
      by (simp add: link_def wf_store_def map_of_clean_links)
  next
    case False
    with conns Some assms show ?thesis
      by (simp add: link_def wf_store_def map_of_clean_links)
  qed
qed

lemma wf_store_clean_links: "wf_store s \<Longrightarrow> wf_store (clean_links now s)"
proof -
  assume wf: "wf_store s"
  have inner: "\<forall>(a, conns) \<in> set s. distinct (map fst conns) \<Longrightarrow>
     \<forall>(a, conns) \<in> set (clean_links now s). distinct (map fst conns)"
    by (induction now s rule: clean_links.induct)
       (auto simp: Let_def clean_connections_def distinct_map_filter)
  from wf inner show ?thesis
    by (simp add: wf_store_def distinct_clean_links)
qed

lemma nonempty_clean_links: "(a, conns) \<in> set (clean_links now s) \<Longrightarrow> conns \<noteq> []"
  by (induction now s rule: clean_links.induct) (auto simp: Let_def split: if_splits)

lemma symmetric_clean_links:
  assumes wf: "wf_store s" and sym: "symmetric s"
  shows "symmetric (clean_links now s)"
  unfolding symmetric_iff
proof (intro allI impI)
  fix a b ld
  assume "link (clean_links now s) a b = Some ld"
  then have old: "link s a b = Some ld" and fresh: "fsub now (get_last_seen ld) \<le> max_age"
    by (auto simp: link_clean_links [OF wf] split: option.splits if_splits)
  from sym old have "agrees ld (link s b a)"
    by (simp add: symmetric_iff)
  then obtain ld' where ld': "link s b a = Some ld'" "count ld' = count ld" "last_seen ld' = last_seen ld"
    by (auto simp: agrees_def split: option.splits)
  then have "get_last_seen ld' = get_last_seen ld"
    by (simp add: get_last_seen_def)
  with ld' fresh show "agrees ld (link (clean_links now s) b a)"
    by (simp add: link_clean_links [OF wf] agrees_def)
qed


lemma set_update_cases:
  "(x, y) \<in> set (AList.update k v al) \<Longrightarrow> (x = k \<and> y = v) \<or> (x, y) \<in> set al"
  by (induction al) (auto split: if_splits)

lemma wf_store_update:
  assumes "wf_store s" and "distinct (map fst conns)"
  shows "wf_store (AList.update a conns s)"
  using assms unfolding wf_store_def
  by (auto simp: distinct_update dest!: set_update_cases)

lemma wf_store_record_direct_link:
  assumes "wf_store (direct_links c)"
  shows "wf_store (direct_links (record_direct_link c a b t))"
proof -
  define links where "links =
    (if map_of (direct_links c) a = None
     then AList.update a [] (direct_links c) else direct_links c)"
  define conns where "conns = (case map_of links a of None \<Rightarrow> [] | Some cs \<Rightarrow> cs)"
  define conns' where "conns' =
    (case map_of conns b of
       Some ld \<Rightarrow>
         AList.update b (ld\<lparr>last_seen := Some t, count := Some (get_count ld 0 + 1)\<rparr>) conns
     | None \<Rightarrow> AList.update b \<lparr>last_seen = Some t, count = Some 1\<rparr> conns)"
  from assms have links: "wf_store links"
    by (simp add: links_def wf_store_update)
  have "distinct (map fst conns)"
  proof (cases "map_of links a")
    case None
    then show ?thesis by (simp add: conns_def)
  next
    case (Some cs)
    then have "(a, cs) \<in> set links"
      by (rule map_of_SomeD)
    with links have "distinct (map fst cs)"
      unfolding wf_store_def by blast
    with Some show ?thesis by (simp add: conns_def)
  qed
  then have "distinct (map fst conns')"
    unfolding conns'_def by (cases "map_of conns b") (simp_all add: distinct_update)
  from links this have "wf_store (AList.update a conns' links)"
    by (rule wf_store_update)
  moreover have "direct_links (record_direct_link c a b t) = AList.update a conns' links"
    unfolding record_direct_link_def Let_def links_def conns_def conns'_def by simp
  ultimately show ?thesis
    by simp
qed

lemma wf_store_record_path:
  "wf_store (direct_links c) \<Longrightarrow> wf_store (direct_links (record_path c ns t))"
proof (induction c ns t rule: record_path.induct)
  case (1 c x y rest now_ts)
  then show ?case
    by (simp add: Let_def wf_store_record_direct_link)
qed simp_all

lemma wf_store_handle_meshcore_event:
  "wf_store (direct_links c) \<Longrightarrow> wf_store (direct_links (handle_meshcore_event snk c ev))"
  by (cases ev)
     (simp add: handle_meshcore_event_def process_rx_log_data_def Let_def wf_store_record_path)

lemma wf_store_handle_events:
  "wf_store (direct_links c) \<Longrightarrow> wf_store (direct_links (handle_events snk c evs))"
  unfolding handle_events_def
  by (induction evs arbitrary: c) (simp_all add: wf_store_handle_meshcore_event)

text \<open>
  Claim C3, as amended. The retention pass of \<^verbatim>\<open>_save_persisted_data\<close> keeps exactly
  the half-edges whose age, the double \<^verbatim>\<open>now - last_seen\<close> (a missing \<open>last_seen\<close> counts as
  0), is at most seven days: no surviving half-edge has an age above seven days, no source
  node is left with an empty table of destinations, and a symmetric store stays
  symmetric. When the clock reads at least 1209600 (fourteen days after the epoch), no
  surviving half-edge was last seen before \<open>now\<close> minus seven days. The store is a Python
  dict of dicts, so its keys are unique (\<open>wf_store\<close>), and they stay so.
\<close>

theorem pruning_at_save:
  assumes wf: "wf_store (direct_links c)"
  shows "(\<forall>a b. link (direct_links (save_persisted_data now c)) a b =
            (case link (direct_links c) a b of
               None \<Rightarrow> None
             | Some ld \<Rightarrow>
                 if fsub now (get_last_seen ld) \<le> 7 * 24 * 3600 then Some ld else None)) \<and>
         (\<forall>a b ld. link (direct_links (save_persisted_data now c)) a b = Some ld \<longrightarrow>
            \<not> 7 * 24 * 3600 < fsub now (get_last_seen ld)) \<and>
         (is_double now \<and> 1209600 \<le> now \<longrightarrow>
            (\<forall>a b ld. link (direct_links (save_persisted_data now c)) a b = Some ld \<and>
                      is_double (get_last_seen ld) \<longrightarrow>
               \<not> get_last_seen ld < now - 7 * 24 * 3600)) \<and>
         (\<forall>a conns. (a, conns) \<in> set (direct_links (save_persisted_data now c)) \<longrightarrow> conns \<noteq> []) \<and>
         (symmetric (direct_links c) \<longrightarrow> symmetric (direct_links (save_persisted_data now c))) \<and>
         wf_store (direct_links (save_persisted_data now c))"
proof -
  have saved: "direct_links (save_persisted_data now c) = clean_links now (direct_links c)"
    by (simp add: save_persisted_data_def)
  have content: "link (clean_links now (direct_links c)) a b =
            (case link (direct_links c) a b of
               None \<Rightarrow> None
             | Some ld \<Rightarrow>
                 if fsub now (get_last_seen ld) \<le> 7 * 24 * 3600 then Some ld else None)" for a b
    using link_clean_links [OF wf, of now a b] unfolding max_age_def .
  have young: "\<not> 7 * 24 * 3600 < fsub now (get_last_seen ld)"
    if "link (clean_links now (direct_links c)) a b = Some ld" for a b ld
    using that unfolding content by (auto split: option.splits if_splits)
  have recent: "\<not> get_last_seen ld < now - 7 * 24 * 3600"
    if "is_double now \<and> 1209600 \<le> now"
      and "link (clean_links now (direct_links c)) a b = Some ld \<and> is_double (get_last_seen ld)"
    for a b ld
  proof
    assume "get_last_seen ld < now - 7 * 24 * 3600"
    with that have "7 * 24 * 3600 < fsub now (get_last_seen ld)"
      by (intro no_flip_on_real_clocks) simp_all
    with young that(2) show False
      by blast
  qed
  from content young recent nonempty_clean_links symmetric_clean_links [OF wf]
    wf_store_clean_links [OF wf]
  show ?thesis
    unfolding saved by blast
qed

theorem pruning_at_save_witness:
  "wf_store (direct_links (initial\<lparr>direct_links := aged_store\<rparr>)) \<and>
   symmetric (direct_links (initial\<lparr>direct_links := aged_store\<rparr>)) \<and>
   is_double 2000000 \<and> is_double 1900000 \<and>
   symmetric (direct_links (save_persisted_data 2000000 (initial\<lparr>direct_links := aged_store\<rparr>))) \<and>
   direct_links (save_persisted_data 2000000 (initial\<lparr>direct_links := aged_store\<rparr>)) =
     [(''aa1111111111'', [(''cc3333333333'', \<lparr>last_seen = Some 1900000, count = Some 1\<rparr>)]),
      (''cc3333333333'', [(''aa1111111111'', \<lparr>last_seen = Some 1900000, count = Some 1\<rparr>)])] \<and>
   link (direct_links (save_persisted_data 2000000 (initial\<lparr>direct_links := aged_store\<rparr>)))
     ''aa1111111111'' ''bb2222222222'' = None \<and>
   link (direct_links (save_persisted_data 2000000 (initial\<lparr>direct_links := aged_store\<rparr>)))
     ''cc3333333333'' ''aa1111111111'' = Some \<lparr>last_seen = Some 1900000, count = Some 1\<rparr> \<and>
   \<not> (1900000 :: real) < 2000000 - 7 * 24 * 3600"
proof -
  let ?c = "initial\<lparr>direct_links := aged_store\<rparr>"
  have wf: "wf_store (direct_links ?c)"
    by code_simp
  have sym: "symmetric (direct_links ?c)"
    by code_simp
  have doubles: "is_double 2000000" "is_double 1900000"
    using is_double_of_int [of 2000000] is_double_of_int [of 1900000] by simp_all
  have ages: "fsub 2000000 1000100 = 999900" "fsub 2000000 1900000 = 100000"
    using fsub_of_int [of 2000000 1000100] fsub_of_int [of 2000000 1900000] by simp_all
  have result: "direct_links (save_persisted_data 2000000 ?c) =
     [(''aa1111111111'', [(''cc3333333333'', \<lparr>last_seen = Some 1900000, count = Some 1\<rparr>)]),
      (''cc3333333333'', [(''aa1111111111'', \<lparr>last_seen = Some 1900000, count = Some 1\<rparr>)])]"
    by (simp add: save_persisted_data_def aged_store_def clean_connections_def
          get_last_seen_def max_age_def ages)
  have stale: "link (direct_links ?c) ''aa1111111111'' ''bb2222222222''
      = Some \<lparr>last_seen = Some 1000100, count = Some 3\<rparr>"
    by code_simp
  have fresh: "link (direct_links ?c) ''cc3333333333'' ''aa1111111111''
      = Some \<lparr>last_seen = Some 1900000, count = Some 1\<rparr>"
    by code_simp
  note pruned = pruning_at_save [OF wf, of 2000000]
  from pruned sym have s: "symmetric (direct_links (save_persisted_data 2000000 ?c))"
    by blast
  from pruned [THEN conjunct1] stale
  have gone: "link (direct_links (save_persisted_data 2000000 ?c)) ''aa1111111111'' ''bb2222222222'' = None"
    by (simp add: get_last_seen_def ages)
  from pruned [THEN conjunct1] fresh
  have kept: "link (direct_links (save_persisted_data 2000000 ?c)) ''cc3333333333'' ''aa1111111111''
      = Some \<lparr>last_seen = Some 1900000, count = Some 1\<rparr>"
    by (simp add: get_last_seen_def ages)
  from pruned [THEN conjunct2, THEN conjunct2, THEN conjunct1] doubles(1)
  have "\<forall>a b ld. link (direct_links (save_persisted_data 2000000 ?c)) a b = Some ld \<and>
                      is_double (get_last_seen ld) \<longrightarrow>
               \<not> get_last_seen ld < 2000000 - 7 * 24 * 3600"
    by simp
  with kept doubles(2) have recent: "\<not> (1900000 :: real) < 2000000 - 7 * 24 * 3600"
    by (fastforce simp: get_last_seen_def)
  from wf sym doubles s result gone kept recent show ?thesis
    by (intro conjI)
qed

text \<open>
  The claim as it stands fails below that clock reading: at \<open>boundary_now\<close> the age of a
  half-edge seen at \<open>boundary_seen\<close> rounds down to seven days, and the half-edge survives
  although it was last seen before \<open>boundary_now\<close> minus seven days. Both are doubles.
\<close>

theorem pruning_at_save_counterexample:
  "is_double boundary_now \<and> is_double boundary_seen \<and>
   wf_store (direct_links (initial\<lparr>direct_links := boundary_store\<rparr>)) \<and>
   link (direct_links (save_persisted_data boundary_now (initial\<lparr>direct_links := boundary_store\<rparr>)))
     ''aa1111111111'' ''bb2222222222'' = Some \<lparr>last_seen = Some boundary_seen, count = Some 1\<rparr> \<and>
   get_last_seen \<lparr>last_seen = Some boundary_seen, count = Some 1\<rparr> <
     boundary_now - 7 * 24 * 3600"
proof -
  have wf: "wf_store (direct_links (initial\<lparr>direct_links := boundary_store\<rparr>))"
    by (simp add: wf_store_def boundary_store_def)
  have "link (direct_links (save_persisted_data boundary_now (initial\<lparr>direct_links := boundary_store\<rparr>)))
     ''aa1111111111'' ''bb2222222222'' = Some \<lparr>last_seen = Some boundary_seen, count = Some 1\<rparr>"
    by (simp add: save_persisted_data_def boundary_store_def clean_connections_def
          get_last_seen_def max_age_def boundary_rounds_down link_def)
  with wf boundary_is_double boundary_is_older show ?thesis
    by (simp add: get_last_seen_def)
qed

lemma greetings_sent_append:
  "greetings_sent (c\<lparr>calls := calls c @ [sc]\<rparr>) =
     greetings_sent c + (if is_send_channel_message sc then 1 else 0)"
  by (simp add: greetings_sent_def)

lemma is_send_channel_message_calls [simp]:
  "is_send_channel_message (channel_message_call c nm)"
  "\<not> is_send_channel_message (notification_call nm pk)"
  by (simp_all add: is_send_channel_message_def channel_message_call_def notification_call_def)

lemma greetings_sent_send_greeting:
  "greetings_sent (send_greeting snk c nm pk) = greetings_sent c + 1"
  by (simp add: send_greeting_def Let_def services_call_def greeting_failed_def greetings_sent_def
        split: option.splits)

lemma calls_send_greeting:
  "calls (send_greeting snk c nm pk) =
     calls c @ channel_message_call c nm #
       (case snk (calls c) (channel_message_call c nm) of
          Some e \<Rightarrow> [] | None \<Rightarrow> [notification_call nm pk])"
  by (simp add: send_greeting_def Let_def services_call_def greeting_failed_def split: option.splits)

lemma greeted_send_greeting:
  "greeted_pubkeys (send_greeting snk c nm pk) =
     (if greeting_raises snk c nm pk then greeted_pubkeys c - {pk}
      else insert pk (greeted_pubkeys c))"
  by (auto simp: send_greeting_def Let_def services_call_def greeting_failed_def greeting_raises_def
        split: option.splits)

lemma logged_send_greeting_raises:
  "greeting_raises snk c nm pk \<Longrightarrow>
   \<exists>e. logged (send_greeting snk c nm pk) =
          logged c @ [Error (''Error sending greeting: '' @ e)]"
  by (auto simp: send_greeting_def Let_def services_call_def greeting_failed_def greeting_raises_def
        split: option.splits)

lemma not_greeting_raises_reliable [simp]: "\<not> greeting_raises reliable c nm pk"
  by (simp add: greeting_raises_def reliable_def)

lemma misc_send_greeting [simp]:
  "greet_enabled (send_greeting snk c nm pk) = greet_enabled c"
  "my_name (send_greeting snk c nm pk) = my_name c"
  by (simp_all add: send_greeting_def Let_def services_call_def greeting_failed_def split: option.splits)

text \<open>process_new_contact in terms of the identity\<close>
lemma process_new_contact_cases:
  "process_new_contact snk c p =
     (if greet_enabled c \<and> p_type p \<noteq> Some 2 \<and> identity_of p \<noteq> [] \<and>
         identity_of p \<notin> greeted_pubkeys c
      then send_greeting snk c (display_name_of p) (identity_of p)
      else c)"
  by (auto simp: process_new_contact_def identity_of_def display_name_of_def Let_def
        split: option.splits)

lemma greet_twice:
  assumes "greet_enabled c" and "p_type e1 \<noteq> Some 2" and "p_type e2 \<noteq> Some 2"
  shows "greetings_sent (process_new_contact reliable (process_new_contact reliable c e1) e2) =
     greetings_sent c
       + (if identity_of e1 \<noteq> [] \<and> identity_of e1 \<notin> greeted_pubkeys c then 1 else 0)
       + (if identity_of e2 \<noteq> [] \<and> identity_of e2 \<notin> greeted_pubkeys c \<and>
             identity_of e2 \<noteq> identity_of e1 then 1 else 0)"
proof (cases "identity_of e1 \<noteq> [] \<and> identity_of e1 \<notin> greeted_pubkeys c")
  case True
  with assms have first: "process_new_contact reliable c e1 =
      send_greeting reliable c (display_name_of e1) (identity_of e1)"
    by (simp add: process_new_contact_cases)
  show ?thesis
    unfolding first using assms True
    by (simp add: process_new_contact_cases [of _ "send_greeting _ _ _ _"]
          greetings_sent_send_greeting greeted_send_greeting)
next
  case False
  with assms have first: "process_new_contact reliable c e1 = c"
    by (auto simp add: process_new_contact_cases)
  show ?thesis
    unfolding first using assms False
    by (auto simp add: process_new_contact_cases greetings_sent_send_greeting)
qed


text \<open>
  Claim C6, as amended. With greeting enabled, a working sink and two new-contact events
  of the client type code that carry the same pubkey: when the identity (the first 12
  characters) is not empty and not in the greeted set, exactly one send-channel-message
  command is issued, by the first event, which puts the identity into the greeted set
  before sending, and the second event is ignored because the identity is present. When
  the identity is empty or already in the greeted set, the first event is ignored as well
  and no command is issued.
\<close>

theorem greeting_dedup:
  assumes "greet_enabled c"
    and "p_type e1 = Some client_type" and "p_type e2 = Some client_type"
    and "public_key e2 = public_key e1"
  shows "greetings_sent (process_new_contact reliable (process_new_contact reliable c e1) e2) =
           greetings_sent c +
             (if identity_of e1 \<noteq> [] \<and> identity_of e1 \<notin> greeted_pubkeys c then 1 else 0) \<and>
         (identity_of e1 \<noteq> [] \<longrightarrow>
            identity_of e1 \<in> greeted_pubkeys (process_new_contact reliable c e1)) \<and>
         process_new_contact reliable (process_new_contact reliable c e1) e2 =
           process_new_contact reliable c e1 \<and>
         (identity_of e1 = [] \<or> identity_of e1 \<in> greeted_pubkeys c \<longrightarrow>
            process_new_contact reliable c e1 = c)"
proof -
  from assms(2,3) have types: "p_type e1 \<noteq> Some 2" "p_type e2 \<noteq> Some 2"
    by (simp_all add: client_type_def)
  from assms(4) have same: "identity_of e2 = identity_of e1"
    by (simp add: identity_of_def)
  have count: "greetings_sent (process_new_contact reliable (process_new_contact reliable c e1) e2) =
           greetings_sent c +
             (if identity_of e1 \<noteq> [] \<and> identity_of e1 \<notin> greeted_pubkeys c then 1 else 0)"
    using greet_twice [OF assms(1) types] same by simp
  have inside: "identity_of e1 \<in> greeted_pubkeys (process_new_contact reliable c e1)"
    if "identity_of e1 \<noteq> []"
    using that assms(1) types(1) by (simp add: process_new_contact_cases greeted_send_greeting)
  have second: "process_new_contact reliable (process_new_contact reliable c e1) e2 =
           process_new_contact reliable c e1"
  proof (cases "identity_of e1 = []")
    case True
    with same show ?thesis
      by (simp add: process_new_contact_cases [of _ _ e2])
  next
    case False
    from inside [OF False] same show ?thesis
      by (simp add: process_new_contact_cases [of _ _ e2])
  qed
  have first: "process_new_contact reliable c e1 = c"
    if "identity_of e1 = [] \<or> identity_of e1 \<in> greeted_pubkeys c"
    using that by (auto simp: process_new_contact_cases)
  from count inside second first show ?thesis
    by blast
qed

lemma identity_examples:
  "identity_of (new_contact ''aabbccddeeff0011'' nm t) = ''aabbccddeeff''"
  "identity_of (new_contact ''aabbccddeeff9999'' nm t) = ''aabbccddeeff''"
  "identity_of (new_contact ''aabbccddeeff'' nm t) = ''aabbccddeeff''"
  "identity_of (new_contact ''AABBCCDDEEFF'' nm t) = ''AABBCCDDEEFF''"
  by (simp_all add: identity_of_def new_contact_def)

theorem greeting_dedup_witness:
  "greet_enabled initial \<and>
   greetings_sent (process_new_contact reliable
      (process_new_contact reliable initial (new_contact ''aabbccddeeff0011'' ''Alice'' 1))
      (new_contact ''aabbccddeeff0011'' ''Alice'' 1)) = 1 \<and>
   ''aabbccddeeff'' \<in> greeted_pubkeys
      (process_new_contact reliable initial (new_contact ''aabbccddeeff0011'' ''Alice'' 1)) \<and>
   greetings_sent (process_new_contact reliable
      (process_new_contact reliable (initial\<lparr>greeted_pubkeys := {''aabbccddeeff''}\<rparr>)
         (new_contact ''aabbccddeeff0011'' ''Alice'' 1))
      (new_contact ''aabbccddeeff0011'' ''Alice'' 1)) = 0 \<and>
   process_new_contact reliable (initial\<lparr>greeted_pubkeys := {''aabbccddeeff''}\<rparr>)
      (new_contact ''aabbccddeeff0011'' ''Alice'' 1) =
     initial\<lparr>greeted_pubkeys := {''aabbccddeeff''}\<rparr>"
proof -
  have on: "greet_enabled initial" "greet_enabled (initial\<lparr>greeted_pubkeys := {''aabbccddeeff''}\<rparr>)"
    by (simp_all add: initial_def)
  have client: "p_type (new_contact ''aabbccddeeff0011'' ''Alice'' 1) = Some client_type"
    by (simp add: new_contact_def client_type_def)
  note fresh = greeting_dedup [OF on(1) client client refl]
  note known = greeting_dedup [OF on(2) client client refl]
  have start:
    "greetings_sent initial = 0" "greeted_pubkeys initial = {}"
    "greetings_sent (initial\<lparr>greeted_pubkeys := {''aabbccddeeff''}\<rparr>) = 0"
    by (simp_all add: initial_def greetings_sent_def)
  from fresh [THEN conjunct1]
  have one: "greetings_sent (process_new_contact reliable
      (process_new_contact reliable initial (new_contact ''aabbccddeeff0011'' ''Alice'' 1))
      (new_contact ''aabbccddeeff0011'' ''Alice'' 1)) = 1"
    by (simp add: identity_examples start)
  from fresh [THEN conjunct2, THEN conjunct1]
  have added: "''aabbccddeeff'' \<in> greeted_pubkeys
      (process_new_contact reliable initial (new_contact ''aabbccddeeff0011'' ''Alice'' 1))"
    by (simp add: identity_examples)
  from known [THEN conjunct1]
  have none: "greetings_sent (process_new_contact reliable
      (process_new_contact reliable (initial\<lparr>greeted_pubkeys := {''aabbccddeeff''}\<rparr>)
         (new_contact ''aabbccddeeff0011'' ''Alice'' 1))
      (new_contact ''aabbccddeeff0011'' ''Alice'' 1)) = 0"
    by (simp add: identity_examples start)
  from known [THEN conjunct2, THEN conjunct2, THEN conjunct2]
  have ignored: "process_new_contact reliable (initial\<lparr>greeted_pubkeys := {''aabbccddeeff''}\<rparr>)
      (new_contact ''aabbccddeeff0011'' ''Alice'' 1) =
     initial\<lparr>greeted_pubkeys := {''aabbccddeeff''}\<rparr>"
    by (simp add: identity_examples)
  from on(1) one added none ignored show ?thesis
    by (intro conjI)
qed

theorem greeting_dedup_counterexample:
  "greet_enabled (initial\<lparr>greeted_pubkeys := {''aabbccddeeff''}\<rparr>) \<and>
   p_type (new_contact ''aabbccddeeff'' ''Alice'' 1) = Some 1 \<and>
   calls (initial\<lparr>greeted_pubkeys := {''aabbccddeeff''}\<rparr>) = [] \<and>
   calls (process_new_contact reliable
      (process_new_contact reliable (initial\<lparr>greeted_pubkeys := {''aabbccddeeff''}\<rparr>)
         (new_contact ''aabbccddeeff'' ''Alice'' 1))
      (new_contact ''aabbccddeeff'' ''Alice'' 1)) = []"
  by (simp add: initial_def new_contact_def process_new_contact_def)


text \<open>
  Claim C7. When an outbound command raises during \<^verbatim>\<open>_send_greeting\<close> for an identity,
  the identity is not in the greeted set afterwards and one error is logged; the handler
  returns the coordinator, so nothing propagates. If this happened while handling a
  new-contact event, the same event handled again issues the send-channel-message command
  again, whatever the sink does then, and the identity is greeted once no command raises.
\<close>

theorem greeting_rollback:
  "(greeting_raises snk c nm pk \<longrightarrow>
      pk \<notin> greeted_pubkeys (send_greeting snk c nm pk) \<and>
      (\<exists>e. logged (send_greeting snk c nm pk) =
             logged c @ [Error (''Error sending greeting: '' @ e)])) \<and>
   (greet_enabled c \<and> p_type ev \<noteq> Some 2 \<and> identity_of ev \<noteq> [] \<and>
    identity_of ev \<notin> greeted_pubkeys c \<and>
    greeting_raises snk c (display_name_of ev) (identity_of ev) \<longrightarrow>
      identity_of ev \<notin> greeted_pubkeys (process_new_contact snk c ev) \<and>
      (\<exists>e. logged (process_new_contact snk c ev) =
             logged c @ [Error (''Error sending greeting: '' @ e)]) \<and>
      greetings_sent (process_new_contact snk' (process_new_contact snk c ev) ev) =
        greetings_sent (process_new_contact snk c ev) + 1 \<and>
      (\<not> greeting_raises snk' (process_new_contact snk c ev) (display_name_of ev) (identity_of ev)
         \<longrightarrow> identity_of ev \<in> greeted_pubkeys
               (process_new_contact snk' (process_new_contact snk c ev) ev)))"
proof (intro conjI impI)
  assume "greeting_raises snk c nm pk"
  then show "pk \<notin> greeted_pubkeys (send_greeting snk c nm pk)"
    by (simp add: greeted_send_greeting)
next
  assume "greeting_raises snk c nm pk"
  then show "\<exists>e. logged (send_greeting snk c nm pk) =
             logged c @ [Error (''Error sending greeting: '' @ e)]"
    by (rule logged_send_greeting_raises)
next
  assume pre: "greet_enabled c \<and> p_type ev \<noteq> Some 2 \<and> identity_of ev \<noteq> [] \<and>
    identity_of ev \<notin> greeted_pubkeys c \<and>
    greeting_raises snk c (display_name_of ev) (identity_of ev)"
  then have first: "process_new_contact snk c ev =
      send_greeting snk c (display_name_of ev) (identity_of ev)"
    by (simp add: process_new_contact_cases)
  from pre show absent: "identity_of ev \<notin> greeted_pubkeys (process_new_contact snk c ev)"
    unfolding first by (simp add: greeted_send_greeting)
  from pre have "greeting_raises snk c (display_name_of ev) (identity_of ev)"
    by simp
  from logged_send_greeting_raises [OF this]
  show "\<exists>e. logged (process_new_contact snk c ev) =
             logged c @ [Error (''Error sending greeting: '' @ e)]"
    unfolding first .
  from pre have "greet_enabled (process_new_contact snk c ev)"
    unfolding first by simp
  with pre absent have again: "process_new_contact snk' (process_new_contact snk c ev) ev =
      send_greeting snk' (process_new_contact snk c ev) (display_name_of ev) (identity_of ev)"
    by (simp add: process_new_contact_cases [of snk'])
  show "greetings_sent (process_new_contact snk' (process_new_contact snk c ev) ev) =
        greetings_sent (process_new_contact snk c ev) + 1"
    unfolding again by (rule greetings_sent_send_greeting)
  assume "\<not> greeting_raises snk' (process_new_contact snk c ev) (display_name_of ev) (identity_of ev)"
  then show "identity_of ev \<in> greeted_pubkeys
               (process_new_contact snk' (process_new_contact snk c ev) ev)"
    unfolding again by (simp add: greeted_send_greeting)
qed

lemma display_name_new_contact [simp]: "display_name_of (new_contact key nm t) = nm"
  by (simp add: display_name_of_def new_contact_def)

theorem greeting_rollback_witness:
  "greeting_raises unavailable initial ''Alice'' ''aabbccddeeff'' \<and>
   greeting_raises no_notifications initial ''Alice'' ''aabbccddeeff'' \<and>
   ''aabbccddeeff'' \<notin> greeted_pubkeys (send_greeting no_notifications initial ''Alice'' ''aabbccddeeff'') \<and>
   ''aabbccddeeff'' \<notin> greeted_pubkeys
      (process_new_contact unavailable initial (new_contact ''aabbccddeeff'' ''Alice'' 1)) \<and>
   greetings_sent (process_new_contact reliable
      (process_new_contact unavailable initial (new_contact ''aabbccddeeff'' ''Alice'' 1))
      (new_contact ''aabbccddeeff'' ''Alice'' 1)) =
     greetings_sent
       (process_new_contact unavailable initial (new_contact ''aabbccddeeff'' ''Alice'' 1)) + 1 \<and>
   ''aabbccddeeff'' \<in> greeted_pubkeys (process_new_contact reliable
      (process_new_contact unavailable initial (new_contact ''aabbccddeeff'' ''Alice'' 1))
      (new_contact ''aabbccddeeff'' ''Alice'' 1))"
proof -
  let ?ev = "new_contact ''aabbccddeeff'' ''Alice'' 1"
  have down: "greeting_raises unavailable initial ''Alice'' ''aabbccddeeff''"
    by (simp add: greeting_raises_def unavailable_def)
  have half: "greeting_raises no_notifications initial ''Alice'' ''aabbccddeeff''"
    by (simp add: greeting_raises_def no_notifications_def channel_message_call_def
          notification_call_def)
  have pre: "greet_enabled initial \<and> p_type ?ev \<noteq> Some 2 \<and> identity_of ?ev \<noteq> [] \<and>
    identity_of ?ev \<notin> greeted_pubkeys initial \<and>
    greeting_raises unavailable initial (display_name_of ?ev) (identity_of ?ev)"
    using down by (simp add: identity_examples) (simp add: initial_def new_contact_def)
  from greeting_rollback [where snk = no_notifications and c = initial and nm = "''Alice''"
      and pk = "''aabbccddeeff''"] half
  have rolled: "''aabbccddeeff'' \<notin> greeted_pubkeys
      (send_greeting no_notifications initial ''Alice'' ''aabbccddeeff'')"
    by blast
  from greeting_rollback [where snk = unavailable and c = initial and ev = ?ev
      and snk' = reliable] pre
  have "identity_of ?ev \<notin> greeted_pubkeys (process_new_contact unavailable initial ?ev) \<and>
      greetings_sent (process_new_contact reliable (process_new_contact unavailable initial ?ev) ?ev) =
        greetings_sent (process_new_contact unavailable initial ?ev) + 1 \<and>
      identity_of ?ev \<in> greeted_pubkeys
               (process_new_contact reliable (process_new_contact unavailable initial ?ev) ?ev)"
    by simp
  with down half rolled show ?thesis
    by (simp add: identity_examples)
qed

text \<open>
  Claim C8, where the code departs from it. A new-contact event of type 2 (repeater) is
  ignored, whatever the greeted set holds. An event of type 3 (room server) is not: on a
  fresh coordinator it is greeted like a client.
\<close>

theorem room_server_is_greeted:
  "process_new_contact snk c (new_contact key nm 2) = c \<and>
   calls (process_new_contact reliable initial (new_contact ''aabbccddeeff'' ''Room'' 3)) =
     [channel_message_call initial ''Room'', notification_call ''Room'' ''aabbccddeeff''] \<and>
   greetings_sent (process_new_contact reliable initial (new_contact ''aabbccddeeff'' ''Room'' 3)) = 1 \<and>
   greeted_pubkeys (process_new_contact reliable initial (new_contact ''aabbccddeeff'' ''Room'' 3)) =
     {''aabbccddeeff''}"
proof -
  let ?ev = "new_contact ''aabbccddeeff'' ''Room'' 3"
  have "process_new_contact snk c (new_contact key nm 2) = c"
    by (simp add: process_new_contact_def new_contact_def)
  moreover have room: "process_new_contact reliable initial ?ev =
      send_greeting reliable initial ''Room'' ''aabbccddeeff''"
    by (simp add: process_new_contact_cases identity_examples)
       (simp add: initial_def new_contact_def)
  moreover have "calls (send_greeting reliable initial ''Room'' ''aabbccddeeff'') =
      [channel_message_call initial ''Room'', notification_call ''Room'' ''aabbccddeeff'']"
    by (simp add: calls_send_greeting reliable_def) (simp add: initial_def)
  moreover have "greetings_sent (send_greeting reliable initial ''Room'' ''aabbccddeeff'') = 1"
    by (simp add: greetings_sent_send_greeting) (simp add: initial_def greetings_sent_def)
  moreover have "greeted_pubkeys (send_greeting reliable initial ''Room'' ''aabbccddeeff'') =
      {''aabbccddeeff''}"
    by (simp add: greeted_send_greeting) (simp add: initial_def)
  ultimately show ?thesis
    by simp
qed




lemma lower_eq_Nil [simp]: "lower s = [] \<longleftrightarrow> s = []"
  by (simp add: lower_def)

lemma match_of_candidate:
  "match_of p st = (if candidate p st then Some (as_node st) else None)"
  by (auto simp: match_of_def candidate_def as_node_def has_coordinates_def truthy_def get_str_def
        Let_def split: option.splits)

lemma matches_candidates:
  "List.map_filter (match_of p) states = candidates states p"
  by (induction states) (simp_all add: candidates_def match_of_candidate)







lemma candidate_has_coordinates: "candidate p st \<Longrightarrow> has_coordinates st"
  by (simp add: candidate_def)

lemma candidates_filter_coordinates:
  "candidates (filter has_coordinates states) p = candidates states p"
proof -
  have "filter (candidate p) (filter has_coordinates states) = filter (candidate p) states"
    by (induction states) (auto dest: candidate_has_coordinates)
  then show ?thesis
    by (simp add: candidates_def)
qed

lemma get_node_info_filter_coordinates:
  "get_node_info (filter has_coordinates states) = get_node_info states"
  by (rule ext) (simp add: get_node_info_def matches_candidates candidates_filter_coordinates)

lemma py_sort_desc_set [simp]: "set (py_sort_desc f xs) = set xs"
  by (simp add: py_sort_desc_def)

lemma py_sort_desc_head: "py_sort_desc f xs = r # rest \<Longrightarrow> r \<in> set xs"
  by (metis list.set_intros(1) py_sort_desc_set)

lemma get_node_info_is_candidate:
  assumes "get_node_info states p = Some n"
  shows "\<exists>st \<in> set states. candidate p st \<and> n = as_node st"
proof -
  from assms have "n \<in> set (candidates states p)"
    by (auto simp: get_node_info_def matches_candidates Let_def
          split: list.splits if_splits dest!: py_sort_desc_head)
  then show ?thesis
    by (auto simp: candidates_def)
qed

lemma has_coordinates_iff:
  "has_coordinates st \<longleftrightarrow>
     (\<exists>la lo. get_lat (attributes st) = Some la \<and> la \<noteq> 0 \<and>
              get_lon (attributes st) = Some lo \<and> lo \<noteq> 0)"
  by (auto simp: has_coordinates_def truthy_def split: option.splits)

lemma as_node_coordinates:
  "has_coordinates st \<Longrightarrow> lat (as_node st) \<noteq> 0 \<and> lon (as_node st) \<noteq> 0"
  by (auto simp: has_coordinates_iff as_node_def)

lemma get_node_info_coordinates:
  assumes "get_node_info states p = Some n"
  shows "lat n \<noteq> 0 \<and> lon n \<noteq> 0"
  using get_node_info_is_candidate [OF assms]
  by (auto dest: candidate_has_coordinates as_node_coordinates)

lemma nodemap_entry_coordinates:
  "nodemap_entry now ts st = Some e \<Longrightarrow> has_coordinates st \<and> nm_lat e \<noteq> 0 \<and> nm_lon e \<noteq> 0"
  by (auto simp: nodemap_entry_def has_coordinates_iff Let_def split: if_splits option.splits)

lemma nodemap_filter_coordinates:
  "List.map_filter (nodemap_entry now ts) (filter has_coordinates states) =
   List.map_filter (nodemap_entry now ts) states"
proof (induction states)
  case Nil
  then show ?case by simp
next
  case (Cons st states)
  show ?case
  proof (cases "has_coordinates st")
    case True
    with Cons show ?thesis by (simp add: List.map_filter_simps split: option.splits)
  next
    case False
    with nodemap_entry_coordinates [of now ts st] have "nodemap_entry now ts st = None"
      by (cases "nodemap_entry now ts st") auto
    with False Cons show ?thesis by (simp add: List.map_filter_simps)
  qed
qed

lemma set_map_filter: "set (List.map_filter f xs) = {y. \<exists>x \<in> set xs. f x = Some y}"
  by (induction xs) (auto simp: List.map_filter_simps split: option.splits)

lemma placed_heatmap_count:
  assumes "placed node_data"
  shows "placed (heatmap_count states p node_data)"
proof (cases "get_node_info states p")
  case None
  with assms show ?thesis by (simp add: heatmap_count_def)
next
  case (Some info)
  note coords = get_node_info_coordinates [OF Some]
  show ?thesis
  proof (cases "map_of node_data (pubkey info)")
    case None
    with Some coords assms show ?thesis
      unfolding placed_def heatmap_count_def Let_def
      by (auto dest!: set_update_cases)
  next
    case (Some e)
    then have "(pubkey info, e) \<in> set node_data"
      by (rule map_of_SomeD)
    with assms have "hm_lat e \<noteq> 0 \<and> hm_lon e \<noteq> 0"
      unfolding placed_def by blast
    with Some \<open>get_node_info states p = Some info\<close> assms show ?thesis
      unfolding placed_def heatmap_count_def Let_def
      by (auto dest!: set_update_cases)
  qed
qed

lemma placed_fold_heatmap_count:
  "placed node_data \<Longrightarrow> placed (fold (heatmap_count states) ps node_data)"
  by (induction ps arbitrary: node_data) (simp_all add: placed_heatmap_count)

lemma placed_heatmap_state:
  "placed node_data \<Longrightarrow> placed (heatmap_state now ts states st node_data)"
  by (simp add: heatmap_state_def placed_fold_heatmap_count split: option.splits)

lemma placed_fold_heatmap_state:
  "placed node_data \<Longrightarrow> placed (fold (heatmap_state now ts states) sts node_data)"
  by (induction sts arbitrary: node_data) (simp_all add: placed_heatmap_state)

lemma heatmap_nodes_placed:
  "n \<in> set (nodes (export_heatmap_data now th states)) \<Longrightarrow> hm_lat n \<noteq> 0 \<and> hm_lon n \<noteq> 0"
proof -
  assume "n \<in> set (nodes (export_heatmap_data now th states))"
  then obtain k where "(k, n) \<in> set (fold (heatmap_state now (th * 3600) states) states [])"
    by (auto simp: export_heatmap_data_def Let_def)
  moreover have "placed (fold (heatmap_state now (th * 3600) states) states [])"
    by (rule placed_fold_heatmap_state) (simp add: placed_def)
  ultimately show ?thesis
    unfolding placed_def by blast
qed

lemma export_half_edge_filter_coordinates:
  "export_half_edge now ts (filter has_coordinates states) = export_half_edge now ts states"
  by (intro ext) (unfold export_half_edge_def get_node_info_filter_coordinates, rule refl)

lemma export_source_filter_coordinates:
  "export_source now ts (filter has_coordinates states) = export_source now ts states"
  by (intro ext)
     (unfold export_source_def get_node_info_filter_coordinates
        export_half_edge_filter_coordinates, rule refl)

lemma export_directlinks_filter_coordinates:
  "export_directlinks_data now th (filter has_coordinates states) c =
   export_directlinks_data now th states c"
  by (simp add: export_directlinks_data_def export_source_filter_coordinates)

text \<open>
  Claim C10. A contact record whose latitude or longitude, read as \<^verbatim>\<open>adv_lat or latitude\<close>
  and \<^verbatim>\<open>adv_lon or longitude\<close>, is missing or zero has no coordinates. Such a record is
  never a candidate of \<^verbatim>\<open>_get_node_info\<close> and gets no nodemap entry; dropping all such
  records from the states changes neither the resolver's answers nor the nodemap nor the
  direct-links export. Every node the resolver returns, every nodemap node and every
  heatmap node has a latitude and a longitude other than 0.
\<close>

theorem zero_coordinate_exclusion:
  "(has_coordinates st \<longleftrightarrow>
      (\<exists>la lo. get_lat (attributes st) = Some la \<and> la \<noteq> 0 \<and>
               get_lon (attributes st) = Some lo \<and> lo \<noteq> 0)) \<and>
   (\<not> has_coordinates st \<longrightarrow>
      \<not> candidate p st \<and> match_of p st = None \<and> nodemap_entry now (th * 3600) st = None) \<and>
   get_node_info (filter has_coordinates states) p = get_node_info states p \<and>
   (\<forall>n. get_node_info states p = Some n \<longrightarrow>
      lat n \<noteq> 0 \<and> lon n \<noteq> 0 \<and>
      (\<exists>s \<in> set states. has_coordinates s \<and> candidate p s \<and> n = as_node s)) \<and>
   export_nodemap_data now th (filter has_coordinates states) = export_nodemap_data now th states \<and>
   (\<forall>n \<in> set (nodes (export_nodemap_data now th states)). nm_lat n \<noteq> 0 \<and> nm_lon n \<noteq> 0) \<and>
   export_directlinks_data now th (filter has_coordinates states) c =
     export_directlinks_data now th states c \<and>
   (\<forall>n \<in> set (nodes (export_heatmap_data now th states)). hm_lat n \<noteq> 0 \<and> hm_lon n \<noteq> 0)"
proof (intro conjI allI impI ballI)
  show "has_coordinates st \<longleftrightarrow>
      (\<exists>la lo. get_lat (attributes st) = Some la \<and> la \<noteq> 0 \<and>
               get_lon (attributes st) = Some lo \<and> lo \<noteq> 0)"
    by (rule has_coordinates_iff)
next
  assume no: "\<not> has_coordinates st"
  then show "\<not> candidate p st"
    by (auto dest: candidate_has_coordinates)
  then show "match_of p st = None"
    by (simp add: match_of_candidate)
  from no nodemap_entry_coordinates [of now "th * 3600" st]
  show "nodemap_entry now (th * 3600) st = None"
    by (cases "nodemap_entry now (th * 3600) st") auto
next
  show "get_node_info (filter has_coordinates states) p = get_node_info states p"
    by (simp add: get_node_info_filter_coordinates)
next
  fix n
  assume found: "get_node_info states p = Some n"
  from get_node_info_coordinates [OF found] show "lat n \<noteq> 0" and "lon n \<noteq> 0"
    by simp_all
  from get_node_info_is_candidate [OF found]
  show "\<exists>s \<in> set states. has_coordinates s \<and> candidate p s \<and> n = as_node s"
    by (auto dest: candidate_has_coordinates)
next
  show "export_nodemap_data now th (filter has_coordinates states) = export_nodemap_data now th states"
    by (simp add: export_nodemap_data_def nodemap_filter_coordinates)
next
  fix n
  assume "n \<in> set (nodes (export_nodemap_data now th states))"
  then obtain s where "nodemap_entry now (th * 3600) s = Some n"
    by (auto simp: export_nodemap_data_def set_map_filter)
  from nodemap_entry_coordinates [OF this] show "nm_lat n \<noteq> 0" and "nm_lon n \<noteq> 0"
    by simp_all
next
  show "export_directlinks_data now th (filter has_coordinates states) c =
     export_directlinks_data now th states c"
    by (rule export_directlinks_filter_coordinates)
next
  fix n
  assume "n \<in> set (nodes (export_heatmap_data now th states))"
  from heatmap_nodes_placed [OF this] show "hm_lat n \<noteq> 0" and "hm_lon n \<noteq> 0"
    by simp_all
qed

theorem zero_coordinate_exclusion_witness:
  "is_contact_entity delta \<and> adv_lat (attributes delta) = Some 0 \<and>
   get_lat (attributes delta) = None \<and>
   \<not> has_coordinates delta \<and> \<not> candidate ''aa44'' delta \<and>
   nodemap_entry 1000 (12 * 3600) delta = None \<and>
   get_node_info snapshot ''aa44'' = None \<and>
   get_node_info [alpha, bravo, charlie, echo, hop_sensor] ''aa'' = get_node_info snapshot ''aa'' \<and>
   get_node_info snapshot ''bb'' = Some (as_node echo) \<and>
   lat (as_node echo) \<noteq> 0 \<and> lon (as_node echo) \<noteq> 0 \<and>
   export_nodemap_data 1000 12 [alpha, bravo, charlie, echo] = export_nodemap_data 1000 12 snapshot \<and>
   map nm_name (nodes (export_nodemap_data 1000 12 snapshot)) =
     [''Alpha'', ''Bravo'', ''Charlie'', ''Echo'']"
proof -
  have contact: "is_contact_entity delta"
    by code_simp
  have zero: "adv_lat (attributes delta) = Some 0" "get_lat (attributes delta) = None"
    by code_simp+
  have no: "\<not> has_coordinates delta"
    by code_simp
  have kept: "filter has_coordinates snapshot = [alpha, bravo, charlie, echo]"
    by code_simp
  have resolver_kept: "get_node_info [alpha, bravo, charlie, echo] ''aa'' =
      get_node_info [alpha, bravo, charlie, echo, hop_sensor] ''aa''"
    by code_simp
  have echo: "get_node_info snapshot ''bb'' = Some (as_node echo)"
    by code_simp
  have unresolved: "get_node_info snapshot ''aa44'' = None"
    by code_simp
  have names: "map nm_name (nodes (export_nodemap_data 1000 12 snapshot)) =
     [''Alpha'', ''Bravo'', ''Charlie'', ''Echo'']"
    by code_simp
  note excl = zero_coordinate_exclusion [of delta "''aa44''" 1000 12 snapshot]
  from excl no have a: "\<not> candidate ''aa44'' delta \<and> nodemap_entry 1000 (12 * 3600) delta = None"
    by blast
  from zero_coordinate_exclusion [of delta "''aa''" 1000 12 snapshot] kept resolver_kept
  have b: "get_node_info [alpha, bravo, charlie, echo, hop_sensor] ''aa'' = get_node_info snapshot ''aa''"
    by simp
  from zero_coordinate_exclusion [of delta "''bb''" 1000 12 snapshot] echo
  have d: "lat (as_node echo) \<noteq> 0 \<and> lon (as_node echo) \<noteq> 0"
    by blast
  from excl kept
  have e: "export_nodemap_data 1000 12 [alpha, bravo, charlie, echo] = export_nodemap_data 1000 12 snapshot"
    by simp
  from contact zero no a unresolved b echo d e names show ?thesis
    by (intro conjI) simp_all
qed

lemma entry_key_l_count [simp]: "entry_key (l\<lparr>l_count := n\<rparr>) = entry_key l"
  by (simp add: entry_key_def)

lemma merge_existing_found:
  "fst (merge_existing k n ls) \<longleftrightarrow> k \<in> entry_key ` set ls"
  by (induction ls) (auto split: prod.splits)

lemma merge_existing_map:
  "distinct (map entry_key ls) \<Longrightarrow>
   snd (merge_existing k n ls) =
     map (\<lambda>l. if entry_key l = k then l\<lparr>l_count := max (l_count l) n\<rparr> else l) ls"
proof (induction ls)
  case Nil
  then show ?case by simp
next
  case (Cons l ls)
  show ?case
  proof (cases "entry_key l = k")
    case True
    from Cons.prems have "entry_key l \<notin> entry_key ` set ls"
      by simp
    then have "\<forall>x \<in> set ls. entry_key x \<noteq> entry_key l"
      by (metis imageI)
    with True have "\<forall>x \<in> set ls. entry_key x \<noteq> k"
      by simp
    then have "map (\<lambda>l. if entry_key l = k then l\<lparr>l_count := max (l_count l) n\<rparr> else l) ls = ls"
      by (induction ls) auto
    with True show ?thesis by simp
  next
    case False
    with Cons show ?thesis by (cases "merge_existing k n ls") simp
  qed
qed

lemma add_link_cases:
  assumes "distinct (map entry_key ls)"
  shows "add_link e ls =
     (if edge_key e \<in> entry_key ` set ls
      then map (\<lambda>l. if entry_key l = edge_key e
                     then l\<lparr>l_count := max (l_count l) (edge_count e)\<rparr> else l) ls
      else ls @ [\<lparr>from_pubkey = pubkey (fst e), from_name = name (fst e),
                  from_lat = lat (fst e), from_lon = lon (fst e),
                  to_pubkey = pubkey (fst (snd e)), to_name = name (fst (snd e)),
                  to_lat = lat (fst (snd e)), to_lon = lon (fst (snd e)),
                  l_count = edge_count e\<rparr>])"
proof -
  obtain a b ld where e: "e = (a, b, ld)" by (cases e)
  obtain ex ls' where m: "merge_existing (link_key (pubkey a) (pubkey b)) (get_count ld 1) ls = (ex, ls')"
    by (cases "merge_existing (link_key (pubkey a) (pubkey b)) (get_count ld 1) ls")
  from m merge_existing_found [of "link_key (pubkey a) (pubkey b)" "get_count ld 1" ls]
  have ex: "ex \<longleftrightarrow> link_key (pubkey a) (pubkey b) \<in> entry_key ` set ls"
    by simp
  from m merge_existing_map [OF assms, of "link_key (pubkey a) (pubkey b)" "get_count ld 1"]
  have ls': "ls' = map (\<lambda>l. if entry_key l = link_key (pubkey a) (pubkey b)
        then l\<lparr>l_count := max (l_count l) (get_count ld 1)\<rparr> else l) ls"
    by simp
  show ?thesis
    unfolding e add_link_def edge_key_def edge_count_def
    by (simp add: m ex ls')
qed

lemma merged_add_link:
  assumes "merged es ls"
  shows "merged (es @ [e]) (add_link e ls)"
proof -
  from assms have dist: "distinct (map entry_key ls)"
    and keys: "entry_key ` set ls = edge_key ` set es"
    and upper: "\<And>l x. l \<in> set ls \<Longrightarrow> x \<in> set es \<Longrightarrow> edge_key x = entry_key l \<Longrightarrow>
                  edge_count x \<le> l_count l"
    and attained: "\<And>l. l \<in> set ls \<Longrightarrow> \<exists>x \<in> set es. edge_key x = entry_key l \<and> edge_count x = l_count l"
    unfolding merged_def by blast+
  show ?thesis
  proof (cases "edge_key e \<in> entry_key ` set ls")
    case True
    let ?f = "\<lambda>l. if entry_key l = edge_key e
                     then l\<lparr>l_count := max (l_count l) (edge_count e)\<rparr> else l"
    from True have new: "add_link e ls = map ?f ls"
      by (simp add: add_link_cases [OF dist])
    have same_keys: "map entry_key (map ?f ls) = map entry_key ls"
      by (induction ls) auto
    have d: "distinct (map entry_key (map ?f ls))"
      using dist by (simp only: same_keys)
    have k: "entry_key ` set (map ?f ls) = edge_key ` set (es @ [e])"
    proof -
      have "entry_key ` set (map ?f ls) = set (map entry_key (map ?f ls))"
        by (simp only: set_map)
      also have "\<dots> = entry_key ` set ls"
        by (simp only: same_keys set_map)
      finally show ?thesis
        using True keys by auto
    qed
    have c: "(\<forall>x \<in> set (es @ [e]). edge_key x = entry_key l' \<longrightarrow> edge_count x \<le> l_count l') \<and>
             (\<exists>x \<in> set (es @ [e]). edge_key x = entry_key l' \<and> edge_count x = l_count l')"
      if "l' \<in> set (map ?f ls)" for l'
    proof -
      from that obtain l where l: "l \<in> set ls" and l': "l' = ?f l"
        by auto
      show ?thesis
      proof (cases "entry_key l = edge_key e")
        case False
        with l' have [simp]: "l' = l" by simp
        from False upper [OF l] attained [OF l] show ?thesis
          by auto
      next
        case same: True
        with l' have l'_eq: "l' = l\<lparr>l_count := max (l_count l) (edge_count e)\<rparr>"
          by simp
        have ub: "edge_count x \<le> l_count l'" if "x \<in> set (es @ [e])" "edge_key x = entry_key l'" for x
        proof (cases "x \<in> set es")
          case True
          with that upper [OF l, of x] show ?thesis
            by (simp add: l'_eq)
        next
          case False
          with that have "x = e" by simp
          then show ?thesis by (simp add: l'_eq)
        qed
        have "\<exists>x \<in> set (es @ [e]). edge_key x = entry_key l' \<and> edge_count x = l_count l'"
        proof (cases "edge_count e \<le> l_count l")
          case True
          with attained [OF l] show ?thesis
            by (auto simp: l'_eq max_def)
        next
          case False
          with same show ?thesis
            by (auto simp: l'_eq max_def)
        qed
        with ub show ?thesis by blast
      qed
    qed
    from d k c show ?thesis
      unfolding new merged_def by blast
  next
    case False
    let ?n = "\<lparr>from_pubkey = pubkey (fst e), from_name = name (fst e),
                  from_lat = lat (fst e), from_lon = lon (fst e),
                  to_pubkey = pubkey (fst (snd e)), to_name = name (fst (snd e)),
                  to_lat = lat (fst (snd e)), to_lon = lon (fst (snd e)),
                  l_count = edge_count e\<rparr>"
    from False have new: "add_link e ls = ls @ [?n]"
      by (simp add: add_link_cases [OF dist])
    have nk: "entry_key ?n = edge_key e"
      by (cases e) (simp add: entry_key_def edge_key_def)
    have nc: "l_count ?n = edge_count e"
      by simp
    from dist False nk have d: "distinct (map entry_key (ls @ [?n]))"
      by (simp only: map_append distinct_append list.map distinct.simps set_map) auto
    from keys nk have k: "entry_key ` set (ls @ [?n]) = edge_key ` set (es @ [e])"
      by (simp only: set_append image_Un list.set image_insert image_empty)
    have c: "(\<forall>x \<in> set (es @ [e]). edge_key x = entry_key l' \<longrightarrow> edge_count x \<le> l_count l') \<and>
             (\<exists>x \<in> set (es @ [e]). edge_key x = entry_key l' \<and> edge_count x = l_count l')"
      if "l' \<in> set (ls @ [?n])" for l'
    proof (cases "l' \<in> set ls")
      case True
      with False have "entry_key l' \<noteq> edge_key e" by (metis imageI)
      with upper [OF True] attained [OF True] show ?thesis
        by auto
    next
      case notold: False
      with that have l': "l' = ?n" by simp
      have "edge_count x \<le> l_count l'" if "x \<in> set (es @ [e])" "edge_key x = entry_key l'" for x
      proof (cases "x \<in> set es")
        case True
        then have "edge_key x \<in> entry_key ` set ls"
          using keys by auto
        with that False show ?thesis
          by (simp only: l' nk)
      next
        case False
        with that have "x = e" by simp
        then show ?thesis by (simp only: l' nc)
      qed
      moreover have "edge_key e = entry_key l' \<and> edge_count e = l_count l'"
        by (simp only: l' nk nc)
      ultimately show ?thesis by auto
    qed
    from d k c show ?thesis
      unfolding new merged_def by blast
  qed
qed

lemma merged_fold_add_link: "merged es (fold add_link es [])"
proof (induction es rule: rev_induct)
  case Nil
  show ?case by (simp add: merged_def)
next
  case (snoc e es)
  from merged_add_link [OF snoc] show ?case by simp
qed


lemma snd_export_half_edge:
  "snd (export_half_edge now ts states a_info (b, ld) acc) =
     (if now - get_last_seen ld > ts then snd acc
      else case get_node_info states b of
             None \<Rightarrow> snd acc
           | Some b_info \<Rightarrow> add_link (a_info, b_info, ld) (snd acc))"
proof (cases acc)
  case (Pair node_data link_data)
  show ?thesis
  proof (cases "get_node_info states b")
    case None
    with Pair show ?thesis
      by (simp add: export_half_edge_def)
  next
    case (Some b_info)
    obtain ex ls' where "merge_existing (link_key (pubkey a_info) (pubkey b_info))
        (get_count ld 1) link_data = (ex, ls')"
      by (cases "merge_existing (link_key (pubkey a_info) (pubkey b_info))
        (get_count ld 1) link_data")
    with Pair Some show ?thesis
      by (simp add: export_half_edge_def add_link_def Let_def)
  qed
qed

lemma snd_fold_export_half_edge:
  "snd (fold (export_half_edge now ts states a_info) conns acc) =
     fold add_link
       (List.map_filter (\<lambda>(node_b_prefix, link_info).
           if now - get_last_seen link_info > ts then None
           else map_option (\<lambda>b_info. (a_info, b_info, link_info))
                  (get_node_info states node_b_prefix)) conns)
       (snd acc)"
proof (induction conns arbitrary: acc)
  case Nil
  show ?case by (simp add: List.map_filter_simps)
next
  case (Cons conn conns)
  obtain b ld where conn: "conn = (b, ld)" by (cases conn)
  show ?case
    unfolding conn
    by (cases "get_node_info states b")
       (simp_all add: Cons.IH snd_export_half_edge List.map_filter_simps)
qed

lemma export_source_pair:
  "export_source now ts states (a, conns) acc =
     (case get_node_info states a of
        None \<Rightarrow> acc
      | Some a_info \<Rightarrow> fold (export_half_edge now ts states a_info) conns acc)"
  by (simp add: export_source_def)

lemma snd_fold_export_source:
  "snd (fold (export_source now ts states) s acc) =
     fold add_link (resolved_half_edges now ts states s) (snd acc)"
proof (induction s arbitrary: acc)
  case Nil
  show ?case by (simp add: resolved_half_edges_def)
next
  case (Cons src s)
  obtain a conns where src: "src = (a, conns)" by (cases src)
  have step: "resolved_half_edges now ts states ((a, conns) # s) =
      (case get_node_info states a of
         None \<Rightarrow> []
       | Some a_info \<Rightarrow>
           List.map_filter (\<lambda>(node_b_prefix, link_info).
              if now - get_last_seen link_info > ts then None
              else map_option (\<lambda>b_info. (a_info, b_info, link_info))
                     (get_node_info states node_b_prefix)) conns)
      @ resolved_half_edges now ts states s"
    by (simp add: resolved_half_edges_def)
  show ?case
    unfolding src step
    by (cases "get_node_info states a")
       (simp_all add: Cons.IH export_source_pair snd_fold_export_half_edge)
qed

lemma links_export_directlinks_data:
  "links (export_directlinks_data now th states c) =
     fold add_link (resolved_half_edges now (th * 3600) states (direct_links c)) []"
proof -
  obtain nd ls where f: "fold (export_source now (th * 3600) states) (direct_links c) ([], []) = (nd, ls)"
    by (cases "fold (export_source now (th * 3600) states) (direct_links c) ([], [])")
  from snd_fold_export_source [of now "th * 3600" states "direct_links c" "([], [])"] f
  have "ls = fold add_link (resolved_half_edges now (th * 3600) states (direct_links c)) []"
    by simp
  with f show ?thesis
    by (simp add: export_directlinks_data_def)
qed

lemma link_key_unordered:
  "link_key x y = link_key x' y' \<longleftrightarrow> (x = x' \<and> y = y') \<or> (x = y' \<and> y = x')"
  by (auto simp: link_key_def)

text \<open>
  Claim C5. In the exported list of links no two entries join the same unordered pair
  of resolved identities; the pairs that have an entry are those joined by a half-edge of
  the store that is within the threshold and resolves at both ends; and the count of an
  entry is the largest count among those half-edges of its pair (a missing count is 1):
  none of them has a larger one and one of them has this one.
\<close>

theorem direct_links_deduplication:
  "(link_key x y = link_key x' y' \<longleftrightarrow> (x = x' \<and> y = y') \<or> (x = y' \<and> y = x')) \<and>
   distinct (map entry_key (links (export_directlinks_data now th states c))) \<and>
   entry_key ` set (links (export_directlinks_data now th states c)) =
     edge_key ` set (resolved_half_edges now (th * 3600) states (direct_links c)) \<and>
   (\<forall>l \<in> set (links (export_directlinks_data now th states c)).
      (\<forall>e \<in> set (resolved_half_edges now (th * 3600) states (direct_links c)).
          edge_key e = entry_key l \<longrightarrow> edge_count e \<le> l_count l) \<and>
      (\<exists>e \<in> set (resolved_half_edges now (th * 3600) states (direct_links c)).
          edge_key e = entry_key l \<and> edge_count e = l_count l))"
proof -
  have "merged (resolved_half_edges now (th * 3600) states (direct_links c))
          (links (export_directlinks_data now th states c))"
    unfolding links_export_directlinks_data by (rule merged_fold_add_link)
  then show ?thesis
    unfolding merged_def using link_key_unordered [of x y x' y'] by blast
qed

theorem direct_links_deduplication_witness:
  "resolved_half_edges 1000 (168 * 3600) snapshot (direct_links (initial\<lparr>direct_links := uneven_store\<rparr>)) =
     [(as_node alpha, as_node echo, \<lparr>last_seen = Some 900, count = Some 3\<rparr>),
      (as_node echo, as_node alpha, \<lparr>last_seen = Some 950, count = Some 5\<rparr>)] \<and>
   edge_key (as_node alpha, as_node echo, \<lparr>last_seen = Some 900, count = Some 3\<rparr>) =
     edge_key (as_node echo, as_node alpha, \<lparr>last_seen = Some 950, count = Some 5\<rparr>) \<and>
   links (export_directlinks_data 1000 168 snapshot (initial\<lparr>direct_links := uneven_store\<rparr>)) =
     [\<lparr>from_pubkey = ''aa1111111111'', from_name = ''Alpha'', from_lat = 51, from_lon = 7,
       to_pubkey = ''bb2222222222'', to_name = ''Echo'', to_lat = 48, to_lon = 11,
       l_count = 5\<rparr>] \<and>
   distinct (map entry_key
     (links (export_directlinks_data 1000 168 snapshot (initial\<lparr>direct_links := uneven_store\<rparr>))))"
proof -
  let ?c = "initial\<lparr>direct_links := uneven_store\<rparr>"
  have edges: "resolved_half_edges 1000 (168 * 3600) snapshot (direct_links ?c) =
     [(as_node alpha, as_node echo, \<lparr>last_seen = Some 900, count = Some 3\<rparr>),
      (as_node echo, as_node alpha, \<lparr>last_seen = Some 950, count = Some 5\<rparr>)]"
    by code_simp
  have same: "edge_key (as_node alpha, as_node echo, \<lparr>last_seen = Some 900, count = Some 3\<rparr>) =
     edge_key (as_node echo, as_node alpha, \<lparr>last_seen = Some 950, count = Some 5\<rparr>)"
    by code_simp
  have out: "links (export_directlinks_data 1000 168 snapshot ?c) =
     [\<lparr>from_pubkey = ''aa1111111111'', from_name = ''Alpha'', from_lat = 51, from_lon = 7,
       to_pubkey = ''bb2222222222'', to_name = ''Echo'', to_lat = 48, to_lon = 11,
       l_count = 5\<rparr>]"
    by code_simp
  from direct_links_deduplication [of _ _ _ _ 1000 168 snapshot ?c]
  have "distinct (map entry_key (links (export_directlinks_data 1000 168 snapshot ?c)))"
    by blast
  with edges same out show ?thesis
    by (intro conjI)
qed

end
